theory Spec2Isabelle
  imports Main "HOL-Library.AList" "HOL-Library.Word"
begin

section \<open>The namespace-class controller\<close>

text \<open>
  A shallow embedding of \<^verbatim>\<open>internal/controller/namespaceclass_controller.go\<close>.
  The reconciler talks to a Kubernetes object store through \<^verbatim>\<open>client.Client\<close>;
  the store, the injected call failures and the log of calls issued are one explicit
  \<open>world\<close> value that every operation takes and returns. Functions of the Go
  libraries whose result the controller only passes on (the JSON codec, SHA-256) are the
  fields of a parameter \<open>E\<close>. Logging is left out: it has no effect on the store.
\<close>

subsection \<open>Constants\<close>

definition LabelKey :: string where
  "LabelKey = ''namespaceclass.akuity.io/name''"

definition AnnotationKey :: string where
  "AnnotationKey = ''namespaceclass.akuity.io/managed-resources''"

definition ManagedByAnnotation :: string where
  "ManagedByAnnotation = ''namespaceclass.akuity.io/managed-by''"

definition ResourceHashAnnotation :: string where
  "ResourceHashAnnotation = ''namespaceclass.akuity.io/resource-hash''"

definition CreatedByClassAnnotation :: string where
  "CreatedByClassAnnotation = ''namespaceclass.akuity.io/created-by-class''"

definition NamespaceFinalizer :: string where
  "NamespaceFinalizer = ''namespaceclass.akuity.io/finalizer''"

text \<open>Durations are nanoseconds, as \<^verbatim>\<open>time.Duration\<close> counts them.\<close>

definition Second :: nat where
  "Second = 1000000000"

definition Minute :: nat where
  "Minute = 60 * Second"

subsection \<open>Data model\<close>

text \<open>\<^verbatim>\<open>ManagedResource\<close>: one entry of the ledger kept in the namespace annotation.\<close>

record ManagedResource =
  APIVersion :: string
  Kind :: string
  Name :: string
  Hash :: string

text \<open>
  \<^verbatim>\<open>unstructured.Unstructured\<close> wraps a \<^verbatim>\<open>map[string]interface{}\<close> decoded from
  JSON. Objects are association lists read with \<open>map_of\<close>; a number keeps its literal.
\<close>

datatype json =
    JNull
  | JBool bool
  | JNumber string
  | JString string
  | JArray "json list"
  | JObject "(string \<times> json) list"

type_synonym unstructured = "(string \<times> json) list"

text \<open>
  \<^verbatim>\<open>corev1.Namespace\<close>, the fields the controller reads and writes. The name of an
  object is the key under which the store holds it, so it is passed beside the record.
  A nil Go map reads as the empty map. Time stamps are natural numbers, 0 the zero time.
\<close>

record Namespace =
  Labels :: "string \<rightharpoonup> string"
  Annotations :: "string \<rightharpoonup> string"
  Finalizers :: "string list"
  DeletionTimestamp :: "nat option"

text \<open>\<^verbatim>\<open>v1.NamespaceClass\<close>: the raw templates of the spec and the status block.\<close>

record NamespaceClass =
  Resources :: "string list"
  ManagedNamespaces :: "string list"
  LastUpdateTime :: nat

text \<open>\<^verbatim>\<open>reconcile.Result\<close>.\<close>

record Result =
  Requeue :: bool
  RequeueAfter :: nat

definition Result_empty :: Result where
  "Result_empty = \<lparr>Requeue = False, RequeueAfter = 0\<rparr>"

text \<open>
  Errors as values. \<open>NotFound\<close>, \<open>AlreadyExists\<close>, \<open>Conflict\<close> and \<open>Unavailable\<close>
  come from the store; \<open>JSONError\<close> is a failed \<^verbatim>\<open>json.Unmarshal\<close> or
  \<^verbatim>\<open>json.Marshal\<close>; \<open>InvalidResource c msg\<close> is the error \<^verbatim>\<open>parseResources\<close> builds
  for class \<open>c\<close>.
\<close>

datatype error =
    NotFound
  | AlreadyExists
  | Conflict
  | Unavailable
  | JSONError
  | InvalidResource string string

subsection \<open>Library functions taken as parameters\<close>

text \<open>
  \<open>json_Unmarshal_managed\<close> and \<open>json_Marshal_managed\<close> are \<^verbatim>\<open>encoding/json\<close> at type
  \<^verbatim>\<open>[]ManagedResource\<close>, \<open>json_Unmarshal_object\<close> decodes a \<^verbatim>\<open>RawExtension\<close> into an
  \<^verbatim>\<open>Unstructured\<close>, \<open>json_Marshal\<close> serialises a generic value (\<open>None\<close>: the call
  returned an error), \<open>sha256_Sum256\<close> is the digest as a list of bytes.
\<close>

record golib =
  json_Unmarshal_managed :: "string \<Rightarrow> ManagedResource list option"
  json_Marshal_managed :: "ManagedResource list \<Rightarrow> string option"
  json_Unmarshal_object :: "string \<Rightarrow> unstructured option"
  json_Marshal :: "json \<Rightarrow> string option"
  sha256_Sum256 :: "string \<Rightarrow> 8 word list"

subsection \<open>Accessors of \<^verbatim>\<open>Unstructured\<close>\<close>

fun as_string :: "json option \<Rightarrow> string" where
  "as_string (Some (JString s)) = s"
| "as_string _ = ''''"

fun as_object :: "json option \<Rightarrow> (string \<times> json) list option" where
  "as_object (Some (JObject m)) = Some m"
| "as_object _ = None"

definition metadata_field :: "unstructured \<Rightarrow> string \<Rightarrow> json option" where
  "metadata_field u f =
     (case as_object (map_of u ''metadata'') of None \<Rightarrow> None | Some m \<Rightarrow> map_of m f)"

definition GetAPIVersion :: "unstructured \<Rightarrow> string" where
  "GetAPIVersion u = as_string (map_of u ''apiVersion'')"

definition GetKind :: "unstructured \<Rightarrow> string" where
  "GetKind u = as_string (map_of u ''kind'')"

definition GetName :: "unstructured \<Rightarrow> string" where
  "GetName u = as_string (metadata_field u ''name'')"

definition GetNamespace :: "unstructured \<Rightarrow> string" where
  "GetNamespace u = as_string (metadata_field u ''namespace'')"

definition GetResourceVersion :: "unstructured \<Rightarrow> string" where
  "GetResourceVersion u = as_string (metadata_field u ''resourceVersion'')"

text \<open>\<^verbatim>\<open>NestedStringMap\<close>: a map with a value that is not a string is an error.\<close>

fun string_entries :: "(string \<times> json) list \<Rightarrow> (string \<times> string) list option" where
  "string_entries [] = Some []"
| "string_entries ((k, JString s) # m) =
     (case string_entries m of None \<Rightarrow> None | Some a \<Rightarrow> Some ((k, s) # a))"
| "string_entries ((k, v) # m) = None"

text \<open>\<^verbatim>\<open>GetAnnotations\<close> drops the error; the nil map it then returns reads as empty.\<close>

definition GetAnnotations :: "unstructured \<Rightarrow> (string \<times> string) list" where
  "GetAnnotations u =
     (case as_object (metadata_field u ''annotations'') of
        None \<Rightarrow> []
      | Some m \<Rightarrow> (case string_entries m of None \<Rightarrow> [] | Some a \<Rightarrow> a))"

text \<open>Indexing a Go \<^verbatim>\<open>map[string]string\<close>: a missing key reads as the empty string.\<close>

definition index_map :: "(string \<times> string) list \<Rightarrow> string \<Rightarrow> string" where
  "index_map a k = (case map_of a k of None \<Rightarrow> '''' | Some v \<Rightarrow> v)"

text \<open>
  \<^verbatim>\<open>SetNestedField(obj, v, "metadata", f)\<close>: a missing \<^verbatim>\<open>metadata\<close> is created, one
  that is not a map is an error, which the setters of \<^verbatim>\<open>Unstructured\<close> drop.
\<close>

definition set_metadata_field :: "string \<Rightarrow> json \<Rightarrow> unstructured \<Rightarrow> unstructured" where
  "set_metadata_field f v u =
     (case map_of u ''metadata'' of
        None \<Rightarrow> AList.update ''metadata'' (JObject [(f, v)]) u
      | Some (JObject m) \<Rightarrow> AList.update ''metadata'' (JObject (AList.update f v m)) u
      | Some _ \<Rightarrow> u)"

definition remove_metadata_field :: "string \<Rightarrow> unstructured \<Rightarrow> unstructured" where
  "remove_metadata_field f u =
     (case map_of u ''metadata'' of
        Some (JObject m) \<Rightarrow> AList.update ''metadata'' (JObject (AList.delete f m)) u
      | _ \<Rightarrow> u)"

definition SetNamespace :: "string \<Rightarrow> unstructured \<Rightarrow> unstructured" where
  "SetNamespace namespace u =
     (if namespace = '''' then remove_metadata_field ''namespace'' u
      else set_metadata_field ''namespace'' (JString namespace) u)"

definition SetResourceVersion :: "string \<Rightarrow> unstructured \<Rightarrow> unstructured" where
  "SetResourceVersion version u =
     (if version = '''' then remove_metadata_field ''resourceVersion'' u
      else set_metadata_field ''resourceVersion'' (JString version) u)"

definition SetAnnotations :: "(string \<times> string) list \<Rightarrow> unstructured \<Rightarrow> unstructured" where
  "SetAnnotations a u =
     set_metadata_field ''annotations'' (JObject (map (\<lambda>(k, v). (k, JString v)) a)) u"

subsection \<open>The object store\<close>

text \<open>
  A resource is held under its apiVersion, kind, namespace and name. Every call to the
  store first takes the next entry of the fault script: \<open>Pass\<close> lets the call through,
  the other two make it fail without touching the store. An exhausted script lets every
  call through. \<open>calls\<close> logs each call with the error it returned.

  One pass runs alone against the store: a version conflict or an outage is an entry of the
  fault script, not a second writer, so an update that gets through replaces the stored
  object. What the store does on its own after a call (it removes a namespace that is
  being deleted once its last finalizer is gone) is not part of a pass and is left out.
\<close>

type_synonym obj_key = "string \<times> string \<times> string \<times> string"

datatype fault = Pass | FailConflict | FailUnavailable

datatype api_call =
    NsGet string
  | NsUpdate string
  | ClassGet string
  | ClassStatusUpdate string
  | ObjGet obj_key
  | ObjCreate obj_key
  | ObjUpdate obj_key
  | ObjDelete obj_key

record world =
  namespaces :: "string \<rightharpoonup> Namespace"
  classes :: "string \<rightharpoonup> NamespaceClass"
  objects :: "obj_key \<rightharpoonup> unstructured"
  faults :: "fault list"
  calls :: "(api_call \<times> error option) list"
  clock :: nat

fun fault_error :: "fault \<Rightarrow> error option" where
  "fault_error Pass = None"
| "fault_error FailConflict = Some Conflict"
| "fault_error FailUnavailable = Some Unavailable"

definition next_fault :: "world \<Rightarrow> error option" where
  "next_fault w = (case faults w of [] \<Rightarrow> None | f # fs \<Rightarrow> fault_error f)"

definition log_call :: "api_call \<Rightarrow> error option \<Rightarrow> world \<Rightarrow> world" where
  "log_call c r w = w\<lparr>calls := calls w @ [(c, r)]\<rparr>"

text \<open>
  \<open>call c body\<close> is one round trip: \<open>body\<close> is what the store does when the call
  gets through, an error or a value with the updated store.
\<close>

definition call ::
  "api_call \<Rightarrow> (world \<Rightarrow> error + ('a \<times> world)) \<Rightarrow> world \<Rightarrow> (error + 'a) \<times> world" where
  "call c body w =
     (let w1 = w\<lparr>faults := tl (faults w)\<rparr> in
      case next_fault w of
        Some e \<Rightarrow> (Inl e, log_call c (Some e) w1)
      | None \<Rightarrow>
          (case body w1 of
             Inl e \<Rightarrow> (Inl e, log_call c (Some e) w1)
           | Inr (a, w2) \<Rightarrow> (Inr a, log_call c None w2)))"

fun err_of :: "(error + unit) \<times> world \<Rightarrow> error option \<times> world" where
  "err_of (Inl e, w) = (Some e, w)"
| "err_of (Inr u, w) = (None, w)"

definition obj_key_of :: "unstructured \<Rightarrow> obj_key" where
  "obj_key_of u = (GetAPIVersion u, GetKind u, GetNamespace u, GetName u)"

definition client_Get_Namespace :: "string \<Rightarrow> world \<Rightarrow> (error + Namespace) \<times> world" where
  "client_Get_Namespace name =
     call (NsGet name)
       (\<lambda>w. case namespaces w name of None \<Rightarrow> Inl NotFound | Some ns \<Rightarrow> Inr (ns, w))"

definition client_Update_Namespace ::
  "string \<Rightarrow> Namespace \<Rightarrow> world \<Rightarrow> error option \<times> world" where
  "client_Update_Namespace name ns w =
     err_of (call (NsUpdate name)
       (\<lambda>w. case namespaces w name of
               None \<Rightarrow> Inl NotFound
             | Some old \<Rightarrow> Inr ((), w\<lparr>namespaces := (namespaces w)(name \<mapsto> ns)\<rparr>)) w)"

definition client_Get_Class :: "string \<Rightarrow> world \<Rightarrow> (error + NamespaceClass) \<times> world" where
  "client_Get_Class name =
     call (ClassGet name)
       (\<lambda>w. case classes w name of None \<Rightarrow> Inl NotFound | Some nsc \<Rightarrow> Inr (nsc, w))"

definition client_Status_Update ::
  "string \<Rightarrow> NamespaceClass \<Rightarrow> world \<Rightarrow> error option \<times> world" where
  "client_Status_Update name nsc w =
     err_of (call (ClassStatusUpdate name)
       (\<lambda>w. case classes w name of
               None \<Rightarrow> Inl NotFound
             | Some old \<Rightarrow> Inr ((), w\<lparr>classes := (classes w)(name \<mapsto> nsc)\<rparr>)) w)"

definition client_Get :: "obj_key \<Rightarrow> world \<Rightarrow> (error + unstructured) \<times> world" where
  "client_Get k =
     call (ObjGet k)
       (\<lambda>w. case objects w k of None \<Rightarrow> Inl NotFound | Some obj \<Rightarrow> Inr (obj, w))"

definition client_Create :: "unstructured \<Rightarrow> world \<Rightarrow> error option \<times> world" where
  "client_Create obj w =
     err_of (call (ObjCreate (obj_key_of obj))
       (\<lambda>w. case objects w (obj_key_of obj) of
               Some old \<Rightarrow> Inl AlreadyExists
             | None \<Rightarrow> Inr ((), w\<lparr>objects := (objects w)(obj_key_of obj \<mapsto> obj)\<rparr>)) w)"

definition client_Update :: "unstructured \<Rightarrow> world \<Rightarrow> error option \<times> world" where
  "client_Update obj w =
     err_of (call (ObjUpdate (obj_key_of obj))
       (\<lambda>w. case objects w (obj_key_of obj) of
               None \<Rightarrow> Inl NotFound
             | Some old \<Rightarrow> Inr ((), w\<lparr>objects := (objects w)(obj_key_of obj \<mapsto> obj)\<rparr>)) w)"

definition client_Delete :: "obj_key \<Rightarrow> world \<Rightarrow> error option \<times> world" where
  "client_Delete k w =
     err_of (call (ObjDelete k)
       (\<lambda>w. case objects w k of
               None \<Rightarrow> Inl NotFound
             | Some old \<Rightarrow> Inr ((), w\<lparr>objects := (objects w)(k := None)\<rparr>)) w)"

text \<open>
  \<^verbatim>\<open>retry.RetryOnConflict\<close> of client-go: the function is run until it returns
  something other than a conflict, at most \<open>steps\<close> times; when the steps are used up
  the last conflict is returned. \<^verbatim>\<open>retry.DefaultRetry\<close> has five steps.
\<close>

fun retry_loop ::
  "nat \<Rightarrow> (world \<Rightarrow> error option \<times> world) \<Rightarrow> error option \<Rightarrow> world \<Rightarrow> error option \<times> world" where
  "retry_loop 0 fn lastErr w = (lastErr, w)"
| "retry_loop (Suc n) fn lastErr w =
     (case fn w of
        (None, w') \<Rightarrow> (None, w')
      | (Some e, w') \<Rightarrow> if e = Conflict then retry_loop n fn (Some e) w' else (Some e, w'))"

definition DefaultRetry_Steps :: nat where
  "DefaultRetry_Steps = 5"

definition RetryOnConflict ::
  "nat \<Rightarrow> (world \<Rightarrow> error option \<times> world) \<Rightarrow> world \<Rightarrow> error option \<times> world" where
  "RetryOnConflict steps fn w = retry_loop steps fn None w"

subsection \<open>Helper functions of the controller\<close>

fun containsString :: "string list \<Rightarrow> string \<Rightarrow> bool" where
  "containsString [] s = False"
| "containsString (item # rest) s = (if item = s then True else containsString rest s)"

fun removeString :: "string list \<Rightarrow> string \<Rightarrow> string list" where
  "removeString [] s = []"
| "removeString (item # rest) s =
     (if item \<noteq> s then item # removeString rest s else removeString rest s)"

text \<open>\<^verbatim>\<open>controllerutil.AddFinalizer\<close> and \<^verbatim>\<open>controllerutil.RemoveFinalizer\<close>.\<close>

definition AddFinalizer :: "string \<Rightarrow> Namespace \<Rightarrow> Namespace" where
  "AddFinalizer finalizer ns =
     (if finalizer \<in> set (Finalizers ns) then ns
      else ns\<lparr>Finalizers := Finalizers ns @ [finalizer]\<rparr>)"

definition RemoveFinalizer :: "string \<Rightarrow> Namespace \<Rightarrow> Namespace" where
  "RemoveFinalizer finalizer ns =
     ns\<lparr>Finalizers := filter (\<lambda>f. f \<noteq> finalizer) (Finalizers ns)\<rparr>"

text \<open>\<^verbatim>\<open>ns.DeletionTimestamp.IsZero()\<close>: a nil pointer or the zero time.\<close>

definition IsZero :: "nat option \<Rightarrow> bool" where
  "IsZero t = (case t of None \<Rightarrow> True | Some v \<Rightarrow> v = 0)"

definition annotation_value :: "Namespace \<Rightarrow> string \<Rightarrow> string" where
  "annotation_value ns k = (case Annotations ns k of None \<Rightarrow> [] | Some v \<Rightarrow> v)"

definition getManagedResources :: "golib \<Rightarrow> Namespace \<Rightarrow> error + ManagedResource list" where
  "getManagedResources E ns =
     (if annotation_value ns AnnotationKey = [] then Inr []
      else case json_Unmarshal_managed E (annotation_value ns AnnotationKey) of
             None \<Rightarrow> Inl JSONError
           | Some managed \<Rightarrow> Inr managed)"

text \<open>The function that \<^verbatim>\<open>updateManagedResources\<close> hands to \<^verbatim>\<open>RetryOnConflict\<close>.\<close>

definition updateManagedResources_attempt ::
  "golib \<Rightarrow> string \<Rightarrow> ManagedResource list \<Rightarrow> world \<Rightarrow> error option \<times> world" where
  "updateManagedResources_attempt E name managed w =
     (case client_Get_Namespace name w of
        (Inl e, w1) \<Rightarrow> (Some e, w1)
      | (Inr ns, w1) \<Rightarrow>
          if managed = [] then
            client_Update_Namespace name
              (ns\<lparr>Annotations := (Annotations ns)(AnnotationKey := None)\<rparr>) w1
          else
            (case json_Marshal_managed E managed of
               None \<Rightarrow> (Some JSONError, w1)
             | Some data \<Rightarrow>
                 client_Update_Namespace name
                   (ns\<lparr>Annotations := (Annotations ns)(AnnotationKey \<mapsto> data)\<rparr>) w1))"

definition updateManagedResources ::
  "golib \<Rightarrow> string \<Rightarrow> ManagedResource list \<Rightarrow> world \<Rightarrow> error option \<times> world" where
  "updateManagedResources E name managed w =
     RetryOnConflict DefaultRetry_Steps (updateManagedResources_attempt E name managed) w"

definition validateResource :: "unstructured \<Rightarrow> string option" where
  "validateResource u =
     (if GetAPIVersion u = [] then Some ''resource is missing apiVersion''
      else if GetKind u = [] then Some ''resource is missing kind''
      else if GetName u = [] then Some ''resource is missing name''
      else None)"

fun parseResources :: "golib \<Rightarrow> string list \<Rightarrow> string \<Rightarrow> error + unstructured list" where
  "parseResources E [] className = Inr []"
| "parseResources E (r # raw) className =
     (case json_Unmarshal_object E r of
        None \<Rightarrow> Inl JSONError
      | Some u \<Rightarrow>
          (case validateResource u of
             Some msg \<Rightarrow> Inl (InvalidResource className msg)
           | None \<Rightarrow>
               (case parseResources E raw className of
                  Inl e \<Rightarrow> Inl e
                | Inr result \<Rightarrow> Inr (u # result))))"

text \<open>\<^verbatim>\<open>fmt.Sprintf("%x", hash)\<close> on a byte array: two lower-case digits a byte.\<close>

definition hex_digit :: "nat \<Rightarrow> char" where
  "hex_digit n = ''0123456789abcdef'' ! (n mod 16)"

definition sprintf_hex :: "8 word list \<Rightarrow> string" where
  "sprintf_hex bs = concat (map (\<lambda>b. [hex_digit (unat b div 16), hex_digit (unat b)]) bs)"

text \<open>
  The deletions \<^verbatim>\<open>calculateResourceHash\<close> makes in the metadata of its copy, when
  the metadata is a map.
\<close>

definition strip_volatile :: "unstructured \<Rightarrow> unstructured" where
  "strip_volatile copy =
     (case map_of copy ''metadata'' of
        Some (JObject metaMap) \<Rightarrow>
          AList.update ''metadata''
            (JObject (AList.delete ''annotations'' (AList.delete ''creationTimestamp''
               (AList.delete ''generation'' (AList.delete ''resourceVersion'' metaMap))))) copy
      | _ \<Rightarrow> copy)"

text \<open>Indexing \<^verbatim>\<open>copy.Object\<close>: a missing key is the nil interface, which marshals as null.\<close>

definition index_object :: "unstructured \<Rightarrow> string \<Rightarrow> json" where
  "index_object u k = (case map_of u k of None \<Rightarrow> JNull | Some v \<Rightarrow> v)"

definition calculateResourceHash :: "golib \<Rightarrow> unstructured \<Rightarrow> string" where
  "calculateResourceHash E obj =
     (let copy = strip_volatile obj in
      case json_Marshal E (index_object copy ''spec'') of
        None \<Rightarrow> []
      | Some data \<Rightarrow> sprintf_hex (sha256_Sum256 E data))"

definition createOrUpdateResource :: "unstructured \<Rightarrow> world \<Rightarrow> error option \<times> world" where
  "createOrUpdateResource desired w =
     (case client_Get (obj_key_of desired) w of
        (Inl e, w1) \<Rightarrow> if e = NotFound then client_Create desired w1 else (Some e, w1)
      | (Inr existing, w1) \<Rightarrow>
          (let existingHash = index_map (GetAnnotations existing) ResourceHashAnnotation;
               newHash = index_map (GetAnnotations desired) ResourceHashAnnotation
           in if existingHash \<noteq> newHash then
                client_Update (SetResourceVersion (GetResourceVersion existing) desired) w1
              else (None, w1)))"

definition deleteResource :: "string \<Rightarrow> ManagedResource \<Rightarrow> world \<Rightarrow> error option \<times> world" where
  "deleteResource namespace res w =
     (case client_Delete (APIVersion res, Kind res, namespace, Name res) w of
        (Some e, w') \<Rightarrow> if e \<noteq> NotFound then (Some e, w') else (None, w')
      | (None, w') \<Rightarrow> (None, w'))"

definition updateNamespaceClassStatus_attempt ::
  "string \<Rightarrow> string \<Rightarrow> world \<Rightarrow> error option \<times> world" where
  "updateNamespaceClassStatus_attempt className namespace w =
     (case client_Get_Class className w of
        (Inl e, w1) \<Rightarrow> (Some e, w1)
      | (Inr nsc, w1) \<Rightarrow>
          if \<not> containsString (ManagedNamespaces nsc) namespace then
            client_Status_Update className
              (nsc\<lparr>ManagedNamespaces := ManagedNamespaces nsc @ [namespace],
                   LastUpdateTime := clock w1\<rparr>) w1
          else (None, w1))"

definition updateNamespaceClassStatus ::
  "string \<Rightarrow> string \<Rightarrow> world \<Rightarrow> error option \<times> world" where
  "updateNamespaceClassStatus className namespace w =
     RetryOnConflict DefaultRetry_Steps
       (updateNamespaceClassStatus_attempt className namespace) w"

subsection \<open>Teardown of a namespace that is being deleted\<close>

text \<open>The loop of \<^verbatim>\<open>handleNamespaceDeletion\<close>, with its flag \<^verbatim>\<open>allSucceeded\<close>.\<close>

fun delete_all_managed ::
  "string \<Rightarrow> ManagedResource list \<Rightarrow> bool \<Rightarrow> world \<Rightarrow> bool \<times> world" where
  "delete_all_managed name [] allSucceeded w = (allSucceeded, w)"
| "delete_all_managed name (res # managed) allSucceeded w =
     (case deleteResource name res w of
        (Some e, w') \<Rightarrow>
          if e \<noteq> NotFound then delete_all_managed name managed False w'
          else delete_all_managed name managed allSucceeded w'
      | (None, w') \<Rightarrow> delete_all_managed name managed allSucceeded w')"

definition handleNamespaceDeletion ::
  "golib \<Rightarrow> string \<Rightarrow> Namespace \<Rightarrow> world \<Rightarrow> (Result \<times> error option) \<times> world" where
  "handleNamespaceDeletion E name ns w =
     (if \<not> containsString (Finalizers ns) NamespaceFinalizer then ((Result_empty, None), w)
      else case getManagedResources E ns of
        Inl e \<Rightarrow> ((Result_empty, Some e), w)
      | Inr managed \<Rightarrow>
          (case delete_all_managed name managed True w of
             (allSucceeded, w1) \<Rightarrow>
               if \<not> allSucceeded then
                 ((Result_empty\<lparr>RequeueAfter := Second * 10\<rparr>, None), w1)
               else
                 (case client_Update_Namespace name (RemoveFinalizer NamespaceFinalizer ns) w1 of
                    (Some e, w2) \<Rightarrow> ((Result_empty, Some e), w2)
                  | (None, w2) \<Rightarrow> ((Result_empty, None), w2))))"

subsection \<open>Reconcile\<close>

text \<open>The cleanup loop of a namespace without class label: an error is only logged.\<close>

fun cleanup_unbound :: "string \<Rightarrow> ManagedResource list \<Rightarrow> world \<Rightarrow> world" where
  "cleanup_unbound name [] w = w"
| "cleanup_unbound name (res # currentManaged) w =
     (case deleteResource name res w of (err, w') \<Rightarrow> cleanup_unbound name currentManaged w')"

text \<open>The branch \<^verbatim>\<open>if !hasClass\<close> of \<^verbatim>\<open>Reconcile\<close>.\<close>

definition reconcile_unbound ::
  "golib \<Rightarrow> string \<Rightarrow> Namespace \<Rightarrow> ManagedResource list \<Rightarrow> world
     \<Rightarrow> (Result \<times> error option) \<times> world" where
  "reconcile_unbound E name ns currentManaged w =
     (let w1 = cleanup_unbound name currentManaged w in
      case (if containsString (Finalizers ns) NamespaceFinalizer then
              client_Update_Namespace name
                (ns\<lparr>Finalizers := removeString (Finalizers ns) NamespaceFinalizer\<rparr>) w1
            else (None, w1)) of
        (Some e, w2) \<Rightarrow> ((Result_empty, Some e), w2)
      | (None, w2) \<Rightarrow>
          (case updateManagedResources E name [] w2 of
             (Some e, w3) \<Rightarrow> ((Result_empty, Some e), w3)
           | (None, w3) \<Rightarrow> ((Result_empty, None), w3)))"

text \<open>
  What the loop over the desired resources does to one of them before it is applied:
  the namespace, the three annotations and the hash.
\<close>

definition stamp_resource :: "golib \<Rightarrow> string \<Rightarrow> string \<Rightarrow> unstructured \<Rightarrow> unstructured" where
  "stamp_resource E name className res0 =
     (let res = SetNamespace name res0;
          annotations = GetAnnotations res;
          annotations = AList.update ManagedByAnnotation ''namespaceclass-controller'' annotations;
          annotations = AList.update CreatedByClassAnnotation className annotations;
          resourceHash = calculateResourceHash E res;
          annotations = AList.update ResourceHashAnnotation resourceHash annotations
      in SetAnnotations annotations res)"

text \<open>The entry appended to \<^verbatim>\<open>managed\<close> for a resource that was applied.\<close>

definition managed_entry :: "golib \<Rightarrow> string \<Rightarrow> string \<Rightarrow> unstructured \<Rightarrow> ManagedResource" where
  "managed_entry E name className res0 =
     \<lparr>APIVersion = GetAPIVersion (stamp_resource E name className res0),
      Kind = GetKind (stamp_resource E name className res0),
      Name = GetName (stamp_resource E name className res0),
      Hash = calculateResourceHash E (SetNamespace name res0)\<rparr>"

text \<open>The loop that creates or updates the desired resources and collects \<^verbatim>\<open>managed\<close>.\<close>

fun apply_desired ::
  "golib \<Rightarrow> string \<Rightarrow> string \<Rightarrow> unstructured list \<Rightarrow> ManagedResource list \<Rightarrow> world
     \<Rightarrow> (error + ManagedResource list) \<times> world" where
  "apply_desired E name className [] managed w = (Inr managed, w)"
| "apply_desired E name className (res0 # desiredResources) managed w =
     (case createOrUpdateResource (stamp_resource E name className res0) w of
        (Some e, w') \<Rightarrow> (Inl e, w')
      | (None, w') \<Rightarrow>
          apply_desired E name className desiredResources
            (managed @ [managed_entry E name className res0]) w')"

text \<open>The key \<^verbatim>\<open>fmt.Sprintf("%s/%s/%s", res.APIVersion, res.Kind, res.Name)\<close>.\<close>

definition resource_key :: "ManagedResource \<Rightarrow> string" where
  "resource_key res = APIVersion res @ ''/'' @ Kind res @ ''/'' @ Name res"

text \<open>The loop that deletes the ledgered resources whose key is not desired.\<close>

fun cleanup_undesired ::
  "string \<Rightarrow> string set \<Rightarrow> ManagedResource list \<Rightarrow> world \<Rightarrow> error option \<times> world" where
  "cleanup_undesired name desiredKeys [] w = (None, w)"
| "cleanup_undesired name desiredKeys (res # currentManaged) w =
     (if resource_key res \<notin> desiredKeys then
        (case deleteResource name res w of
           (Some e, w') \<Rightarrow>
             if e \<noteq> NotFound then (Some e, w')
             else cleanup_undesired name desiredKeys currentManaged w'
         | (None, w') \<Rightarrow> cleanup_undesired name desiredKeys currentManaged w')
      else cleanup_undesired name desiredKeys currentManaged w)"

text \<open>\<^verbatim>\<open>Reconcile\<close> from the fetch of the class on.\<close>

definition reconcile_bound ::
  "golib \<Rightarrow> string \<Rightarrow> string \<Rightarrow> ManagedResource list \<Rightarrow> world
     \<Rightarrow> (Result \<times> error option) \<times> world" where
  "reconcile_bound E name className currentManaged w =
     (case client_Get_Class className w of
        (Inl e, w1) \<Rightarrow>
          if e = NotFound then ((Result_empty\<lparr>RequeueAfter := Minute\<rparr>, None), w1)
          else ((Result_empty, Some e), w1)
      | (Inr nsc, w1) \<Rightarrow>
          (case parseResources E (Resources nsc) className of
             Inl e \<Rightarrow> ((Result_empty, Some e), w1)
           | Inr desiredResources \<Rightarrow>
               (case apply_desired E name className desiredResources [] w1 of
                  (Inl e, w2) \<Rightarrow> ((Result_empty, Some e), w2)
                | (Inr managed, w2) \<Rightarrow>
                    (case cleanup_undesired name (set (map resource_key managed))
                            currentManaged w2 of
                       (Some e, w3) \<Rightarrow> ((Result_empty, Some e), w3)
                     | (None, w3) \<Rightarrow>
                         (case updateManagedResources E name managed w3 of
                            (Some e, w4) \<Rightarrow> ((Result_empty, Some e), w4)
                          | (None, w4) \<Rightarrow>
                              (case updateNamespaceClassStatus className name w4 of
                                 (err, w5) \<Rightarrow> ((Result_empty, err), w5)))))))"

definition Reconcile :: "golib \<Rightarrow> string \<Rightarrow> world \<Rightarrow> (Result \<times> error option) \<times> world" where
  "Reconcile E name w =
     (case client_Get_Namespace name w of
        (Inl e, w1) \<Rightarrow>
          if e = NotFound then ((Result_empty, None), w1) else ((Result_empty, Some e), w1)
      | (Inr ns, w1) \<Rightarrow>
          if \<not> IsZero (DeletionTimestamp ns) then handleNamespaceDeletion E name ns w1
          else
            (case getManagedResources E ns of
               Inl e \<Rightarrow> ((Result_empty, Some e), w1)
             | Inr currentManaged \<Rightarrow>
                 (case Labels ns LabelKey of
                    None \<Rightarrow> reconcile_unbound E name ns currentManaged w1
                  | Some className \<Rightarrow>
                      if \<not> containsString (Finalizers ns) NamespaceFinalizer then
                        (case client_Update_Namespace name
                                (AddFinalizer NamespaceFinalizer ns) w1 of
                           (Some e, w2) \<Rightarrow> ((Result_empty, Some e), w2)
                         | (None, w2) \<Rightarrow> ((Result_empty\<lparr>Requeue := True\<rparr>, None), w2))
                      else reconcile_bound E name className currentManaged w1)))"

subsection \<open>Observations on a run\<close>

text \<open>The calls issued between two worlds of one run, oldest first.\<close>

definition issued :: "world \<Rightarrow> world \<Rightarrow> (api_call \<times> error option) list" where
  "issued w w' = drop (length (calls w)) (calls w')"

fun is_object_write :: "api_call \<Rightarrow> bool" where
  "is_object_write (ObjCreate k) = True"
| "is_object_write (ObjUpdate k) = True"
| "is_object_write (ObjDelete k) = True"
| "is_object_write c = False"

fun is_write :: "api_call \<Rightarrow> bool" where
  "is_write (NsGet n) = False"
| "is_write (ClassGet n) = False"
| "is_write (ObjGet k) = False"
| "is_write c = True"

fun is_delete :: "api_call \<Rightarrow> bool" where
  "is_delete (ObjDelete k) = True"
| "is_delete c = False"

fun is_apply_call :: "api_call \<Rightarrow> bool" where
  "is_apply_call (ObjGet k) = True"
| "is_apply_call (ObjCreate k) = True"
| "is_apply_call (ObjUpdate k) = True"
| "is_apply_call c = False"

text \<open>A call that failed with an error other than not-found.\<close>

definition failed :: "error option \<Rightarrow> bool" where
  "failed r = (r \<noteq> None \<and> r \<noteq> Some NotFound)"

text \<open>The store key of a ledger entry in a namespace, as \<^verbatim>\<open>deleteResource\<close> builds it.\<close>

definition object_key :: "string \<Rightarrow> ManagedResource \<Rightarrow> obj_key" where
  "object_key namespace res = (APIVersion res, Kind res, namespace, Name res)"

definition managed_by_controller :: "unstructured \<Rightarrow> bool" where
  "managed_by_controller obj =
     (index_map (GetAnnotations obj) ManagedByAnnotation = ''namespaceclass-controller'')"

text \<open>
  The live managed resources of a namespace, the templates of a class and the entries
  of a ledger, each as a set of (apiVersion, kind, name).
\<close>

definition live_managed :: "world \<Rightarrow> string \<Rightarrow> (string \<times> string \<times> string) set" where
  "live_managed w namespace =
     {(a, k, n). \<exists>obj. objects w (a, k, namespace, n) = Some obj \<and> managed_by_controller obj}"

definition template_keys :: "unstructured list \<Rightarrow> (string \<times> string \<times> string) set" where
  "template_keys us = (\<lambda>u. (GetAPIVersion u, GetKind u, GetName u)) ` set us"

definition ledger_keys :: "ManagedResource list \<Rightarrow> (string \<times> string \<times> string) set" where
  "ledger_keys ms = (\<lambda>m. (APIVersion m, Kind m, Name m)) ` set ms"

text \<open>The world after a call that left the store as it was.\<close>

definition after_call :: "api_call \<Rightarrow> error option \<Rightarrow> world \<Rightarrow> world" where
  "after_call c r w = log_call c r (w\<lparr>faults := tl (faults w)\<rparr>)"

text \<open>The next \<open>n\<close> calls get through to the store.\<close>

definition passes :: "nat \<Rightarrow> world \<Rightarrow> bool" where
  "passes n w = list_all (\<lambda>f. f = Pass) (take n (faults w))"

text \<open>\<open>extends P w w'\<close>: the run from \<open>w\<close> to \<open>w'\<close> issued only calls that satisfy \<open>P\<close>.\<close>

definition extends :: "(api_call \<Rightarrow> bool) \<Rightarrow> world \<Rightarrow> world \<Rightarrow> bool" where
  "extends P w w' \<longleftrightarrow> (\<exists>tr. calls w' = calls w @ tr \<and> (\<forall>cr \<in> set tr. P (fst cr)))"

text \<open>A ledger entry whose key is not among the desired keys.\<close>

definition undesired :: "string set \<Rightarrow> ManagedResource \<Rightarrow> bool" where
  "undesired desiredKeys res = (resource_key res \<notin> desiredKeys)"

subsection \<open>Concrete data for the example runs\<close>

text \<open>
  A stand-in for the library parameter, only to run the controller on concrete worlds:
  the decoders are tables of the documents used below, a ledger is marshalled as its
  keys and hashes, a value as a plain rendering, and the digest is the input itself
  (not SHA-256, but a function of the same type).
\<close>

fun render :: "json \<Rightarrow> string" where
  "render JNull = ''null''"
| "render (JBool b) = (if b then ''true'' else ''false'')"
| "render (JNumber n) = n"
| "render (JString s) = ''<'' @ s @ ''>''"
| "render (JArray xs) = ''['' @ concat (map render xs) @ '']''"
| "render (JObject m) = ''{'' @ concat (map (\<lambda>p. fst p @ '':'' @ render (snd p) @ '','') m) @ ''}''"

definition demo_policy :: unstructured where
  "demo_policy =
     [(''apiVersion'', JString ''networking.k8s.io/v1''),
      (''kind'', JString ''NetworkPolicy''),
      (''metadata'', JObject [(''name'', JString ''p'')]),
      (''spec'', JObject [(''t'', JString ''I'')])]"

text \<open>Another kind, name and metadata, the same spec.\<close>

definition demo_quota :: unstructured where
  "demo_quota =
     [(''apiVersion'', JString ''v1''),
      (''kind'', JString ''ResourceQuota''),
      (''metadata'', JObject [(''name'', JString ''q''), (''generation'', JNumber ''7''),
         (''annotations'', JObject [(''owner'', JString ''team'')])]),
      (''spec'', JObject [(''t'', JString ''I'')])]"

text \<open>A template without a name.\<close>

definition demo_nameless :: unstructured where
  "demo_nameless =
     [(''apiVersion'', JString ''v1''),
      (''kind'', JString ''ConfigMap''),
      (''metadata'', JObject [])]"

definition entry_p :: ManagedResource where
  "entry_p = \<lparr>APIVersion = ''networking.k8s.io/v1'', Kind = ''NetworkPolicy'', Name = ''p'',
     Hash = ''7b743a3c493e2c7d''\<rparr>"

definition entry_q :: ManagedResource where
  "entry_q = \<lparr>APIVersion = ''v1'', Kind = ''ResourceQuota'', Name = ''q'',
     Hash = ''7b743a3c493e2c7d''\<rparr>"

definition marshal_ledger :: "ManagedResource list \<Rightarrow> string" where
  "marshal_ledger ms = concat (map (\<lambda>m. resource_key m @ ''#'' @ Hash m @ '';'') ms)"

definition demo_lib :: golib where
  "demo_lib =
     \<lparr>json_Unmarshal_managed =
        map_of [(marshal_ledger [entry_p], [entry_p]),
                (marshal_ledger [entry_q], [entry_q]),
                (marshal_ledger [entry_p, entry_q], [entry_p, entry_q])],
      json_Marshal_managed = (\<lambda>ms. Some (marshal_ledger ms)),
      json_Unmarshal_object =
        map_of [(''policy'', demo_policy), (''quota'', demo_quota),
                (''nameless'', demo_nameless)],
      json_Marshal = (\<lambda>v. Some (render v)),
      sha256_Sum256 = map (\<lambda>c. of_nat (of_char c))\<rparr>"

text \<open>Namespaces: the ledger annotation empty, and not parseable.\<close>

definition ns_empty_ledger :: Namespace where
  "ns_empty_ledger =
     \<lparr>Labels = Map.empty, Annotations = [AnnotationKey \<mapsto> []], Finalizers = [],
      DeletionTimestamp = None\<rparr>"

definition ns_corrupt :: Namespace where
  "ns_corrupt =
     \<lparr>Labels = [LabelKey \<mapsto> ''c''], Annotations = [AnnotationKey \<mapsto> ''not json''],
      Finalizers = [], DeletionTimestamp = None\<rparr>"

definition world_of ::
  "Namespace \<Rightarrow> NamespaceClass \<Rightarrow> (obj_key \<rightharpoonup> unstructured) \<Rightarrow> fault list \<Rightarrow> world" where
  "world_of ns nsc objs fs =
     \<lparr>namespaces = [''n'' \<mapsto> ns], classes = [''c'' \<mapsto> nsc], objects = objs, faults = fs,
      calls = [], clock = 1\<rparr>"

definition class_of :: "string list \<Rightarrow> NamespaceClass" where
  "class_of raw = \<lparr>Resources = raw, ManagedNamespaces = [''n''], LastUpdateTime = 0\<rparr>"

text \<open>A template list with a nameless template, and one with two valid templates.\<close>

definition ns_bound :: "string option \<Rightarrow> Namespace" where
  "ns_bound ledger =
     \<lparr>Labels = [LabelKey \<mapsto> ''c''], Annotations = (\<lambda>k. if k = AnnotationKey then ledger else None),
      Finalizers = [NamespaceFinalizer], DeletionTimestamp = None\<rparr>"

text \<open>
  An unbound namespace that still carries the finalizer and a ledger of one entry, and a
  store answer that fails the deletion of that entry.
\<close>

definition ns_unbound :: Namespace where
  "ns_unbound =
     \<lparr>Labels = Map.empty, Annotations = [AnnotationKey \<mapsto> marshal_ledger [entry_p]],
      Finalizers = [NamespaceFinalizer], DeletionTimestamp = None\<rparr>"

definition key_p :: obj_key where
  "key_p = (''networking.k8s.io/v1'', ''NetworkPolicy'', ''n'', ''p'')"

definition key_q :: obj_key where
  "key_q = (''v1'', ''ResourceQuota'', ''n'', ''q'')"

definition live_p :: unstructured where
  "live_p = stamp_resource demo_lib ''n'' ''c'' demo_policy"

definition live_q :: unstructured where
  "live_q = stamp_resource demo_lib ''n'' ''c'' demo_quota"

definition world_unbound_failing :: world where
  "world_unbound_failing =
     world_of ns_unbound (class_of []) [key_p \<mapsto> live_p] [Pass, FailUnavailable]"

text \<open>
  A bound namespace whose ledger lists two resources that its class no longer declares,
  and a store that fails the first deletion.
\<close>

definition world_stale_failing :: world where
  "world_stale_failing =
     world_of (ns_bound (Some (marshal_ledger [entry_p, entry_q]))) (class_of [])
       [key_p \<mapsto> live_p, key_q \<mapsto> live_q] [Pass, Pass, FailUnavailable]"

text \<open>A namespace that is being deleted, with one ledgered resource.\<close>

definition ns_deleting :: Namespace where
  "ns_deleting =
     \<lparr>Labels = [LabelKey \<mapsto> ''c''], Annotations = [AnnotationKey \<mapsto> marshal_ledger [entry_p]],
      Finalizers = [NamespaceFinalizer], DeletionTimestamp = Some 5\<rparr>"

definition world_deleting :: world where
  "world_deleting = world_of ns_deleting (class_of [''policy'']) [key_p \<mapsto> live_p] []"

text \<open>A bound namespace whose single resource matches its class already.\<close>

definition world_matching :: world where
  "world_matching =
     world_of (ns_bound (Some (marshal_ledger [entry_p]))) (class_of [''policy''])
       [key_p \<mapsto> live_p] []"

text \<open>A namespace that switched class: the ledger lists the quota, the class the policy.\<close>

definition world_switch :: world where
  "world_switch =
     world_of (ns_bound (Some (marshal_ledger [entry_q]))) (class_of [''policy''])
       [key_q \<mapsto> live_q] []"

text \<open>
  A first pass on an empty namespace creates the policy and fails on the quota (the
  store answers service-unavailable to the create), so it ends before the ledger is
  written. The class then drops both templates.
\<close>

definition world_partial :: world where
  "world_partial =
     world_of (ns_bound None) (class_of [''policy'', ''quota'']) Map.empty
       [Pass, Pass, Pass, Pass, Pass, FailUnavailable]"

definition world_orphan :: world where
  "world_orphan =
     (snd (Reconcile demo_lib ''n'' world_partial))
       \<lparr>classes := [''c'' \<mapsto> class_of []], faults := [], calls := []\<rparr>"

section \<open>Properties of the store\<close>

lemma failed_simps [simp]:
  "\<not> failed None" "\<not> failed (Some NotFound)" "failed (Some Conflict)"
  "failed (Some Unavailable)"
  by (simp_all add: failed_def)

lemma next_fault_not_NotFound: "next_fault w \<noteq> Some NotFound"
proof (cases "faults w")
  case Nil
  then show ?thesis by (simp add: next_fault_def)
next
  case (Cons f fs)
  then show ?thesis by (cases f) (simp_all add: next_fault_def)
qed

lemma issued_append: "calls w' = calls w @ tr \<Longrightarrow> issued w w' = tr"
  by (simp add: issued_def)

lemma issued_self [simp]: "issued w w = []"
  by (simp add: issued_def)

text \<open>One round trip: the three ways it can end.\<close>

lemma call_cases:
  assumes "call c body w = (r, w')"
  obtains
    (faulted) e where "next_fault w = Some e" "r = Inl e"
      "w' = log_call c (Some e) (w\<lparr>faults := tl (faults w)\<rparr>)"
  | (refused) e where "next_fault w = None" "body (w\<lparr>faults := tl (faults w)\<rparr>) = Inl e"
      "r = Inl e" "w' = log_call c (Some e) (w\<lparr>faults := tl (faults w)\<rparr>)"
  | (passed) a w2 where "next_fault w = None" "body (w\<lparr>faults := tl (faults w)\<rparr>) = Inr (a, w2)"
      "r = Inr a" "w' = log_call c None w2"
  using assms
  by (auto simp: call_def Let_def split: option.splits sum.splits)

lemma err_call_cases:
  assumes "err_of (call c body w) = (err, w')"
  obtains
    (faulted) e where "next_fault w = Some e" "err = Some e"
      "w' = log_call c (Some e) (w\<lparr>faults := tl (faults w)\<rparr>)"
  | (refused) e where "next_fault w = None" "body (w\<lparr>faults := tl (faults w)\<rparr>) = Inl e"
      "err = Some e" "w' = log_call c (Some e) (w\<lparr>faults := tl (faults w)\<rparr>)"
  | (passed) w2 where "next_fault w = None" "body (w\<lparr>faults := tl (faults w)\<rparr>) = Inr ((), w2)"
      "err = None" "w' = log_call c None w2"
proof -
  obtain r w'' where c: "call c body w = (r, w'')"
    by (cases "call c body w") simp
  with assms have e: "err_of (r, w'') = (err, w')" by simp
  from c show ?thesis
  proof (cases rule: call_cases)
    case (faulted e)
    with e have "err = Some e" "w' = log_call c (Some e) (w\<lparr>faults := tl (faults w)\<rparr>)"
      by auto
    with faulted(1) show ?thesis by (rule that(1))
  next
    case (refused e)
    with e have "err = Some e" "w' = log_call c (Some e) (w\<lparr>faults := tl (faults w)\<rparr>)"
      by auto
    with refused(1,2) show ?thesis by (rule that(2))
  next
    case (passed a w2)
    with e have "err = None" "w' = log_call c None w2"
      by auto
    with passed(1,2) show ?thesis by (intro that(3)) simp_all
  qed
qed

lemma client_Get_Namespace_spec:
  assumes "client_Get_Namespace name w = (r, w')"
  shows "namespaces w' = namespaces w \<and> classes w' = classes w \<and> objects w' = objects w
    \<and> clock w' = clock w \<and> faults w' = tl (faults w)
    \<and> calls w' = calls w @ [(NsGet name, case r of Inl e \<Rightarrow> Some e | Inr ns \<Rightarrow> None)]
    \<and> (case r of
         Inl e \<Rightarrow> next_fault w = Some e \<or> (next_fault w = None \<and> e = NotFound \<and> namespaces w name = None)
       | Inr ns \<Rightarrow> next_fault w = None \<and> namespaces w name = Some ns)"
  using assms unfolding client_Get_Namespace_def
  by (elim call_cases) (auto simp: log_call_def split: option.splits)

lemma client_Get_Class_spec:
  assumes "client_Get_Class name w = (r, w')"
  shows "namespaces w' = namespaces w \<and> classes w' = classes w \<and> objects w' = objects w
    \<and> clock w' = clock w \<and> faults w' = tl (faults w)
    \<and> calls w' = calls w @ [(ClassGet name, case r of Inl e \<Rightarrow> Some e | Inr ns \<Rightarrow> None)]
    \<and> (case r of
         Inl e \<Rightarrow> next_fault w = Some e \<or> (next_fault w = None \<and> e = NotFound \<and> classes w name = None)
       | Inr nsc \<Rightarrow> next_fault w = None \<and> classes w name = Some nsc)"
  using assms unfolding client_Get_Class_def
  by (elim call_cases) (auto simp: log_call_def split: option.splits)

lemma client_Get_spec:
  assumes "client_Get k w = (r, w')"
  shows "namespaces w' = namespaces w \<and> classes w' = classes w \<and> objects w' = objects w
    \<and> clock w' = clock w \<and> faults w' = tl (faults w)
    \<and> calls w' = calls w @ [(ObjGet k, case r of Inl e \<Rightarrow> Some e | Inr ns \<Rightarrow> None)]
    \<and> (case r of
         Inl e \<Rightarrow> next_fault w = Some e \<or> (next_fault w = None \<and> e = NotFound \<and> objects w k = None)
       | Inr obj \<Rightarrow> next_fault w = None \<and> objects w k = Some obj)"
  using assms unfolding client_Get_def
  by (elim call_cases) (auto simp: log_call_def split: option.splits)

lemma client_Update_Namespace_spec:
  assumes "client_Update_Namespace name ns w = (err, w')"
  shows "classes w' = classes w \<and> objects w' = objects w
    \<and> clock w' = clock w \<and> faults w' = tl (faults w)
    \<and> calls w' = calls w @ [(NsUpdate name, err)]
    \<and> (case err of
         Some e \<Rightarrow> namespaces w' = namespaces w
           \<and> (next_fault w = Some e \<or> (next_fault w = None \<and> e = NotFound \<and> namespaces w name = None))
       | None \<Rightarrow> next_fault w = None \<and> namespaces w name \<noteq> None
           \<and> namespaces w' = (namespaces w)(name \<mapsto> ns))"
  using assms unfolding client_Update_Namespace_def
  by (elim err_call_cases) (auto simp: log_call_def split: option.splits)

lemma client_Status_Update_spec:
  assumes "client_Status_Update name nsc w = (err, w')"
  shows "namespaces w' = namespaces w \<and> objects w' = objects w
    \<and> clock w' = clock w \<and> faults w' = tl (faults w)
    \<and> calls w' = calls w @ [(ClassStatusUpdate name, err)]
    \<and> (case err of
         Some e \<Rightarrow> classes w' = classes w
       | None \<Rightarrow> classes w' = (classes w)(name \<mapsto> nsc))"
  using assms unfolding client_Status_Update_def
  by (elim err_call_cases) (auto simp: log_call_def split: option.splits)

lemma client_Create_spec:
  assumes "client_Create obj w = (err, w')"
  shows "namespaces w' = namespaces w \<and> classes w' = classes w
    \<and> clock w' = clock w \<and> faults w' = tl (faults w)
    \<and> calls w' = calls w @ [(ObjCreate (obj_key_of obj), err)]
    \<and> (case err of
         Some e \<Rightarrow> objects w' = objects w
       | None \<Rightarrow> objects w' = (objects w)(obj_key_of obj \<mapsto> obj))"
  using assms unfolding client_Create_def
  by (elim err_call_cases) (auto simp: log_call_def split: option.splits)

lemma client_Update_spec:
  assumes "client_Update obj w = (err, w')"
  shows "namespaces w' = namespaces w \<and> classes w' = classes w
    \<and> clock w' = clock w \<and> faults w' = tl (faults w)
    \<and> calls w' = calls w @ [(ObjUpdate (obj_key_of obj), err)]
    \<and> (case err of
         Some e \<Rightarrow> objects w' = objects w
       | None \<Rightarrow> objects w' = (objects w)(obj_key_of obj \<mapsto> obj))"
  using assms unfolding client_Update_def
  by (elim err_call_cases) (auto simp: log_call_def split: option.splits)

lemma client_Delete_spec:
  assumes "client_Delete k w = (err, w')"
  shows "namespaces w' = namespaces w \<and> classes w' = classes w
    \<and> clock w' = clock w \<and> faults w' = tl (faults w)
    \<and> calls w' = calls w @ [(ObjDelete k, err)]
    \<and> (if failed err then objects w' = objects w
        else objects w' = (objects w)(k := None))"
proof -
  from assms show ?thesis
    unfolding client_Delete_def
  proof (cases rule: err_call_cases)
    case (faulted e)
    with next_fault_not_NotFound[of w] show ?thesis
      by (auto simp: log_call_def failed_def)
  next
    case (refused e)
    then show ?thesis
      by (auto simp: log_call_def failed_def split: option.splits)
  next
    case (passed w2)
    then show ?thesis
      by (auto simp: log_call_def failed_def split: option.splits)
  qed
qed

section \<open>Properties of the accessors\<close>

lemma annotation_keys_distinct [simp]:
  "ManagedByAnnotation \<noteq> CreatedByClassAnnotation"
  "ManagedByAnnotation \<noteq> ResourceHashAnnotation"
  "CreatedByClassAnnotation \<noteq> ResourceHashAnnotation"
  "CreatedByClassAnnotation \<noteq> ManagedByAnnotation"
  "ResourceHashAnnotation \<noteq> ManagedByAnnotation"
  "ResourceHashAnnotation \<noteq> CreatedByClassAnnotation"
  by (simp_all add: ManagedByAnnotation_def CreatedByClassAnnotation_def
      ResourceHashAnnotation_def)

lemma containsString_iff [simp]: "containsString xs s \<longleftrightarrow> s \<in> set xs"
  by (induction xs) auto

lemma removeString_filter: "removeString xs s = filter (\<lambda>x. x \<noteq> s) xs"
  by (induction xs) auto

lemma set_removeString [simp]: "set (removeString xs s) = set xs - {s}"
  by (auto simp: removeString_filter)

lemma top_field_set_metadata [simp]:
  "k \<noteq> ''metadata'' \<Longrightarrow> map_of (set_metadata_field f v u) k = map_of u k"
  by (simp add: set_metadata_field_def update_conv' split: option.splits json.splits)

lemma top_field_remove_metadata [simp]:
  "k \<noteq> ''metadata'' \<Longrightarrow> map_of (remove_metadata_field f u) k = map_of u k"
  by (simp add: remove_metadata_field_def update_conv' split: option.splits json.splits)

lemma metadata_field_set_other [simp]:
  "g \<noteq> f \<Longrightarrow> metadata_field (set_metadata_field f v u) g = metadata_field u g"
  by (simp add: metadata_field_def set_metadata_field_def update_conv'
      split: option.splits json.splits)

lemma metadata_field_remove_other [simp]:
  "g \<noteq> f \<Longrightarrow> metadata_field (remove_metadata_field f u) g = metadata_field u g"
  by (simp add: metadata_field_def remove_metadata_field_def update_conv' delete_conv'
      split: option.splits json.splits)

lemma metadata_field_remove_same [simp]:
  "metadata_field (remove_metadata_field f u) f = None"
  by (simp add: metadata_field_def remove_metadata_field_def update_conv' delete_conv'
      split: option.splits json.splits)

text \<open>A name that reads as non-empty shows that the metadata is a map.\<close>

lemma metadata_is_map:
  "metadata_field u g \<noteq> None \<Longrightarrow> \<exists>m. map_of u ''metadata'' = Some (JObject m)"
  by (cases "map_of u ''metadata''" rule: as_object.cases)
    (simp_all add: metadata_field_def)

lemma GetName_metadata: "GetName u \<noteq> [] \<Longrightarrow> \<exists>m. map_of u ''metadata'' = Some (JObject m)"
  by (rule metadata_is_map[of u "''name''"]) (cases "metadata_field u ''name''"; simp add: GetName_def)

lemma metadata_field_set_same:
  "map_of u ''metadata'' = Some (JObject m) \<Longrightarrow>
   metadata_field (set_metadata_field f v u) f = Some v"
  by (simp add: metadata_field_def set_metadata_field_def update_conv')

lemma metadata_kept_set:
  "map_of u ''metadata'' = Some (JObject m) \<Longrightarrow>
   \<exists>m'. map_of (set_metadata_field f v u) ''metadata'' = Some (JObject m')"
  by (simp add: set_metadata_field_def update_conv')

lemma metadata_kept_remove:
  "map_of u ''metadata'' = Some (JObject m) \<Longrightarrow>
   \<exists>m'. map_of (remove_metadata_field f u) ''metadata'' = Some (JObject m')"
  by (simp add: remove_metadata_field_def update_conv')

lemma metadata_kept_SetNamespace:
  "map_of u ''metadata'' = Some (JObject m) \<Longrightarrow>
   \<exists>m'. map_of (SetNamespace n u) ''metadata'' = Some (JObject m')"
  by (simp add: SetNamespace_def metadata_kept_set metadata_kept_remove)

lemma GetAPIVersion_setters [simp]:
  "GetAPIVersion (SetNamespace n u) = GetAPIVersion u"
  "GetAPIVersion (SetAnnotations a u) = GetAPIVersion u"
  "GetAPIVersion (SetResourceVersion v u) = GetAPIVersion u"
  by (simp_all add: GetAPIVersion_def SetNamespace_def SetAnnotations_def
      SetResourceVersion_def)

lemma GetKind_setters [simp]:
  "GetKind (SetNamespace n u) = GetKind u"
  "GetKind (SetAnnotations a u) = GetKind u"
  "GetKind (SetResourceVersion v u) = GetKind u"
  by (simp_all add: GetKind_def SetNamespace_def SetAnnotations_def SetResourceVersion_def)

lemma GetName_setters [simp]:
  "GetName (SetNamespace n u) = GetName u"
  "GetName (SetAnnotations a u) = GetName u"
  "GetName (SetResourceVersion v u) = GetName u"
  by (simp_all add: GetName_def SetNamespace_def SetAnnotations_def SetResourceVersion_def)

lemma GetNamespace_setters [simp]:
  "GetNamespace (SetAnnotations a u) = GetNamespace u"
  "GetNamespace (SetResourceVersion v u) = GetNamespace u"
  by (simp_all add: GetNamespace_def SetAnnotations_def SetResourceVersion_def)

lemma GetAnnotations_SetResourceVersion [simp]:
  "GetAnnotations (SetResourceVersion v u) = GetAnnotations u"
  by (simp add: GetAnnotations_def SetResourceVersion_def)

lemma GetNamespace_SetNamespace:
  assumes "GetName u \<noteq> []"
  shows "GetNamespace (SetNamespace n u) = n"
proof -
  from GetName_metadata[OF assms] obtain m where m: "map_of u ''metadata'' = Some (JObject m)"
    by blast
  show ?thesis
  proof (cases "n = []")
    case True
    then show ?thesis by (simp add: GetNamespace_def SetNamespace_def)
  next
    case False
    with m show ?thesis
      by (simp add: GetNamespace_def SetNamespace_def metadata_field_set_same)
  qed
qed

lemma string_entries_strings [simp]:
  "string_entries (map (\<lambda>(k, v). (k, JString v)) a) = Some a"
  by (induction a) auto

lemma GetAnnotations_SetAnnotations:
  "map_of u ''metadata'' = Some (JObject m) \<Longrightarrow> GetAnnotations (SetAnnotations a u) = a"
  by (simp add: GetAnnotations_def SetAnnotations_def metadata_field_set_same)

lemma obj_key_of_SetResourceVersion [simp]:
  "obj_key_of (SetResourceVersion v u) = obj_key_of u"
  by (simp add: obj_key_of_def)

lemma managed_by_controller_SetResourceVersion [simp]:
  "managed_by_controller (SetResourceVersion v u) = managed_by_controller u"
  by (simp add: managed_by_controller_def)

text \<open>The hash reads the spec alone.\<close>

lemma strip_volatile_other: "k \<noteq> ''metadata'' \<Longrightarrow> map_of (strip_volatile u) k = map_of u k"
  by (simp add: strip_volatile_def update_conv' split: option.splits json.splits)

lemma calculateResourceHash_cong:
  "map_of obj1 ''spec'' = map_of obj2 ''spec'' \<Longrightarrow>
   calculateResourceHash E obj1 = calculateResourceHash E obj2"
  by (simp add: calculateResourceHash_def index_object_def strip_volatile_other)

lemma calculateResourceHash_SetNamespace [simp]:
  "calculateResourceHash E (SetNamespace n u) = calculateResourceHash E u"
  by (rule calculateResourceHash_cong) (simp add: SetNamespace_def)

text \<open>A stamped resource.\<close>

lemma stamp_resource_fields [simp]:
  "GetAPIVersion (stamp_resource E name className u) = GetAPIVersion u"
  "GetKind (stamp_resource E name className u) = GetKind u"
  "GetName (stamp_resource E name className u) = GetName u"
  by (simp_all add: stamp_resource_def Let_def)

lemma stamp_resource_namespace:
  "GetName u \<noteq> [] \<Longrightarrow> GetNamespace (stamp_resource E name className u) = name"
  by (simp add: stamp_resource_def Let_def GetNamespace_SetNamespace)

lemma obj_key_of_stamp:
  "GetName u \<noteq> [] \<Longrightarrow>
   obj_key_of (stamp_resource E name className u) = (GetAPIVersion u, GetKind u, name, GetName u)"
  by (simp add: obj_key_of_def stamp_resource_namespace)

lemma stamp_resource_annotations:
  assumes "GetName u \<noteq> []"
  shows "GetAnnotations (stamp_resource E name className u) =
    AList.update ResourceHashAnnotation (calculateResourceHash E u)
      (AList.update CreatedByClassAnnotation className
        (AList.update ManagedByAnnotation ''namespaceclass-controller''
          (GetAnnotations (SetNamespace name u))))"
proof -
  from GetName_metadata[OF assms] obtain m where "map_of u ''metadata'' = Some (JObject m)"
    by blast
  from metadata_kept_SetNamespace[OF this] obtain m'
    where "map_of (SetNamespace name u) ''metadata'' = Some (JObject m')"
    by blast
  then show ?thesis
    by (simp add: stamp_resource_def Let_def GetAnnotations_SetAnnotations)
qed

lemma stamp_resource_managed:
  "GetName u \<noteq> [] \<Longrightarrow> managed_by_controller (stamp_resource E name className u)"
  by (simp add: managed_by_controller_def stamp_resource_annotations index_map_def
      update_conv')

lemma stamp_resource_hash:
  "GetName u \<noteq> [] \<Longrightarrow>
   index_map (GetAnnotations (stamp_resource E name className u)) ResourceHashAnnotation =
     calculateResourceHash E u"
  by (simp add: stamp_resource_annotations index_map_def update_conv')

lemma managed_entry_fields [simp]:
  "APIVersion (managed_entry E name className u) = GetAPIVersion u"
  "Kind (managed_entry E name className u) = GetKind u"
  "Name (managed_entry E name className u) = GetName u"
  "Hash (managed_entry E name className u) = calculateResourceHash E u"
  by (simp_all add: managed_entry_def)

lemma validateResource_None:
  "validateResource u = None \<longleftrightarrow> GetAPIVersion u \<noteq> [] \<and> GetKind u \<noteq> [] \<and> GetName u \<noteq> []"
  by (simp add: validateResource_def)

lemma parseResources_valid:
  "parseResources E raw className = Inr us \<Longrightarrow> u \<in> set us \<Longrightarrow>
   GetAPIVersion u \<noteq> [] \<and> GetKind u \<noteq> [] \<and> GetName u \<noteq> []"
proof (induction raw arbitrary: us)
  case Nil
  then show ?case by simp
next
  case (Cons r raw)
  from Cons.prems(1) obtain v vs where v: "json_Unmarshal_object E r = Some v"
    "validateResource v = None" "parseResources E raw className = Inr vs" "us = v # vs"
    by (auto split: option.splits sum.splits)
  with Cons.prems(2) Cons.IH[of vs] show ?case
    by (auto simp: validateResource_None)
qed

lemma parseResources_invalid:
  "r \<in> set raw \<Longrightarrow> json_Unmarshal_object E r = Some u \<Longrightarrow> validateResource u \<noteq> None \<Longrightarrow>
   \<exists>e. parseResources E raw className = Inl e"
proof (induction raw)
  case Nil
  then show ?case by simp
next
  case (Cons a raw)
  then show ?case
    by (cases "a = r") (auto split: option.splits sum.splits)
qed

section \<open>Properties of the operations\<close>

lemma extends_refl [simp]: "extends P w w"
  by (simp add: extends_def)

lemma extends_trans: "extends P w w1 \<Longrightarrow> extends P w1 w2 \<Longrightarrow> extends P w w2"
  by (fastforce simp: extends_def)

lemma extends_mono: "extends P w w' \<Longrightarrow> (\<And>c. P c \<Longrightarrow> Q c) \<Longrightarrow> extends Q w w'"
  by (fastforce simp: extends_def)

lemma extends_single: "calls w' = calls w @ [(c, r)] \<Longrightarrow> P c \<Longrightarrow> extends P w w'"
  by (simp add: extends_def)

lemma extends_issued: "extends P w w' \<Longrightarrow> cr \<in> set (issued w w') \<Longrightarrow> P (fst cr)"
  by (auto simp: extends_def issued_def)

lemma extends_calls: "extends P w w' \<Longrightarrow> calls w' = calls w @ issued w w'"
  by (auto simp: extends_def issued_def)

lemma extends_filter:
  "extends P w w' \<Longrightarrow> (\<And>c. P c \<Longrightarrow> \<not> Q c) \<Longrightarrow>
   filter (\<lambda>cr. Q (fst cr)) (calls w') = filter (\<lambda>cr. Q (fst cr)) (calls w)"
  by (auto simp: extends_def filter_empty_conv)

lemma issued_trans:
  "calls w1 = calls w @ t1 \<Longrightarrow> calls w2 = calls w1 @ t2 \<Longrightarrow> issued w w2 = t1 @ t2"
  by (simp add: issued_def)

lemma deleteResource_spec:
  assumes "deleteResource name res w = (err, w')"
  shows "\<exists>r. calls w' = calls w @ [(ObjDelete (object_key name res), r)]
    \<and> err = (if failed r then r else None)
    \<and> namespaces w' = namespaces w \<and> classes w' = classes w
    \<and> (if failed r then objects w' = objects w
        else objects w' = (objects w)(object_key name res := None))"
proof -
  obtain r w1 where c: "client_Delete (object_key name res) w = (r, w1)"
    by (cases "client_Delete (object_key name res) w") simp
  with assms have "w' = w1" "err = (if failed r then r else None)"
    by (auto simp: deleteResource_def object_key_def failed_def split: option.splits if_splits)
  with client_Delete_spec[OF c] show ?thesis
    by auto
qed

lemma deleteResource_not_NotFound: "deleteResource name res w = (err, w') \<Longrightarrow> \<not> failed err \<longleftrightarrow> err = None"
  by (auto simp: deleteResource_def failed_def split: option.splits prod.splits if_splits)

text \<open>The teardown loop issues one delete per entry, in order, and remembers a failure.\<close>

lemma delete_all_managed_spec:
  "delete_all_managed name ms flag w = (flag', w') \<Longrightarrow>
   \<exists>tr. calls w' = calls w @ tr
     \<and> map fst tr = map (\<lambda>m. ObjDelete (object_key name m)) ms
     \<and> (flag' \<longleftrightarrow> flag \<and> (\<forall>cr \<in> set tr. \<not> failed (snd cr)))
     \<and> namespaces w' = namespaces w \<and> classes w' = classes w
     \<and> (\<forall>k. objects w' k \<noteq> None \<longrightarrow> objects w' k = objects w k)
     \<and> (flag' \<longrightarrow> (\<forall>m \<in> set ms. objects w' (object_key name m) = None))"
proof (induction ms arbitrary: flag w)
  case Nil
  then show ?case by simp
next
  case (Cons m ms)
  obtain err w1 where d: "deleteResource name m w = (err, w1)"
    by (cases "deleteResource name m w") simp
  from deleteResource_spec[OF d] obtain r where r:
    "calls w1 = calls w @ [(ObjDelete (object_key name m), r)]"
    "err = (if failed r then r else None)"
    "namespaces w1 = namespaces w" "classes w1 = classes w"
    "if failed r then objects w1 = objects w
     else objects w1 = (objects w)(object_key name m := None)"
    by blast
  define flag1 where "flag1 = (flag \<and> \<not> failed r)"
  from Cons.prems d r(2) have rec: "delete_all_managed name ms flag1 w1 = (flag', w')"
    by (auto simp: flag1_def failed_def split: option.splits if_splits)
  from Cons.IH[OF rec] obtain tr where tr:
    "calls w' = calls w1 @ tr"
    "map fst tr = map (\<lambda>m. ObjDelete (object_key name m)) ms"
    "flag' \<longleftrightarrow> flag1 \<and> (\<forall>cr \<in> set tr. \<not> failed (snd cr))"
    "namespaces w' = namespaces w1" "classes w' = classes w1"
    "\<forall>k. objects w' k \<noteq> None \<longrightarrow> objects w' k = objects w1 k"
    "flag' \<longrightarrow> (\<forall>m \<in> set ms. objects w' (object_key name m) = None)"
    by blast
  have frame: "\<forall>k. objects w' k \<noteq> None \<longrightarrow> objects w' k = objects w k"
  proof (intro allI impI)
    fix k assume k: "objects w' k \<noteq> None"
    with tr(6) have "objects w' k = objects w1 k" by blast
    moreover have "objects w1 k = objects w k \<or> objects w1 k = None"
      using r(5) by (cases "failed r") simp_all
    ultimately show "objects w' k = objects w k" using k by auto
  qed
  have gone: "flag' \<longrightarrow> objects w' (object_key name m) = None"
  proof
    assume "flag'"
    with tr(3) have "\<not> failed r" by (simp add: flag1_def)
    with r(5) have "objects w1 (object_key name m) = None" by simp
    with tr(6) show "objects w' (object_key name m) = None" by (metis)
  qed
  show ?case
    apply (rule exI[of _ "(ObjDelete (object_key name m), r) # tr"])
    using tr r frame gone by (auto simp: flag1_def)
qed

text \<open>The cleanup loop of an unbound namespace issues one delete per entry.\<close>

lemma cleanup_unbound_spec:
  "\<exists>tr. calls (cleanup_unbound name ms w) = calls w @ tr
     \<and> map fst tr = map (\<lambda>m. ObjDelete (object_key name m)) ms
     \<and> namespaces (cleanup_unbound name ms w) = namespaces w
     \<and> classes (cleanup_unbound name ms w) = classes w
     \<and> faults (cleanup_unbound name ms w) = drop (length ms) (faults w)"
proof (induction ms arbitrary: w)
  case Nil
  then show ?case by simp
next
  case (Cons m ms)
  obtain err w1 where d: "deleteResource name m w = (err, w1)"
    by (cases "deleteResource name m w") simp
  obtain r0 where c: "client_Delete (object_key name m) w = (r0, w1)"
    using d by (auto simp: deleteResource_def object_key_def split: prod.splits option.splits if_splits)
  from deleteResource_spec[OF d] obtain r where r:
    "calls w1 = calls w @ [(ObjDelete (object_key name m), r)]"
    "namespaces w1 = namespaces w" "classes w1 = classes w"
    by blast
  from client_Delete_spec[OF c] have f: "faults w1 = tl (faults w)" by simp
  from Cons.IH[of w1] obtain tr where tr:
    "calls (cleanup_unbound name ms w1) = calls w1 @ tr"
    "map fst tr = map (\<lambda>m. ObjDelete (object_key name m)) ms"
    "namespaces (cleanup_unbound name ms w1) = namespaces w1"
    "classes (cleanup_unbound name ms w1) = classes w1"
    "faults (cleanup_unbound name ms w1) = drop (length ms) (faults w1)"
    by blast
  show ?case
    apply (rule exI[of _ "(ObjDelete (object_key name m), r) # tr"])
    using tr r d f by (simp add: drop_Suc)
qed

text \<open>
  The removal loop of a bound namespace: deletes in ledger order for the entries that
  are not desired, and stops at the first failure.
\<close>

lemma cleanup_undesired_spec:
  "cleanup_undesired name keys cur w = (err, w') \<Longrightarrow>
   \<exists>tr. calls w' = calls w @ tr
     \<and> map fst tr =
         take (length tr) (map (\<lambda>m. ObjDelete (object_key name m)) (filter (undesired keys) cur))
     \<and> (\<forall>cr \<in> set (butlast tr). \<not> failed (snd cr))
     \<and> (err = None \<longrightarrow> length tr = length (filter (undesired keys) cur)
           \<and> (\<forall>cr \<in> set tr. \<not> failed (snd cr)))
     \<and> (err \<noteq> None \<longrightarrow> tr \<noteq> [] \<and> snd (last tr) = err \<and> failed err)
     \<and> namespaces w' = namespaces w \<and> classes w' = classes w
     \<and> (\<forall>k. k \<notin> object_key name ` {m \<in> set cur. undesired keys m} \<longrightarrow>
            objects w' k = objects w k)
     \<and> (\<forall>k. objects w' k \<noteq> None \<longrightarrow> objects w' k = objects w k)
     \<and> (err = None \<longrightarrow>
           (\<forall>m \<in> set cur. undesired keys m \<longrightarrow> objects w' (object_key name m) = None))"
proof (induction cur arbitrary: w)
  case Nil
  then show ?case by simp
next
  case (Cons m cur)
  show ?case
  proof (cases "undesired keys m")
    case False
    with Cons.prems have "cleanup_undesired name keys cur w = (err, w')"
      by (simp add: undesired_def)
    moreover from False have "filter (undesired keys) (m # cur) = filter (undesired keys) cur"
      "{x \<in> set (m # cur). undesired keys x} = {x \<in> set cur. undesired keys x}"
      by auto
    moreover from False have "\<And>P. (\<forall>x \<in> set (m # cur). undesired keys x \<longrightarrow> P x)
        \<longleftrightarrow> (\<forall>x \<in> set cur. undesired keys x \<longrightarrow> P x)"
      by auto
    ultimately show ?thesis
      using Cons.IH[of w] by presburger
  next
    case True
    obtain e1 w1 where d: "deleteResource name m w = (e1, w1)"
      by (cases "deleteResource name m w") simp
    from deleteResource_spec[OF d] obtain r where r:
      "calls w1 = calls w @ [(ObjDelete (object_key name m), r)]"
      "e1 = (if failed r then r else None)"
      "namespaces w1 = namespaces w" "classes w1 = classes w"
      "if failed r then objects w1 = objects w
       else objects w1 = (objects w)(object_key name m := None)"
      by blast
    show ?thesis
    proof (cases "failed r")
      case f: True
      with Cons.prems True d r(2) have "err = r" "w' = w1"
        by (auto simp: undesired_def failed_def split: option.splits if_splits)
      with r f True show ?thesis
        by (intro exI[of _ "[(ObjDelete (object_key name m), r)]"]) (auto simp: failed_def)
    next
      case f: False
      with Cons.prems True d r(2) have rec: "cleanup_undesired name keys cur w1 = (err, w')"
        by (auto simp: undesired_def failed_def split: option.splits if_splits)
      from Cons.IH[OF rec] obtain tr where tr:
        "calls w' = calls w1 @ tr"
        "map fst tr =
           take (length tr) (map (\<lambda>m. ObjDelete (object_key name m)) (filter (undesired keys) cur))"
        "\<forall>cr \<in> set (butlast tr). \<not> failed (snd cr)"
        "err = None \<longrightarrow> length tr = length (filter (undesired keys) cur)
           \<and> (\<forall>cr \<in> set tr. \<not> failed (snd cr))"
        "err \<noteq> None \<longrightarrow> tr \<noteq> [] \<and> snd (last tr) = err \<and> failed err"
        "namespaces w' = namespaces w1" "classes w' = classes w1"
        "\<forall>k. k \<notin> object_key name ` {m \<in> set cur. undesired keys m} \<longrightarrow>
            objects w' k = objects w1 k"
        "\<forall>k. objects w' k \<noteq> None \<longrightarrow> objects w' k = objects w1 k"
        "err = None \<longrightarrow>
           (\<forall>m \<in> set cur. undesired keys m \<longrightarrow> objects w' (object_key name m) = None)"
        by (elim exE conjE) (rule that; assumption)
      from f r(5) have o1: "objects w1 = (objects w)(object_key name m := None)" by simp
      have gone: "objects w' (object_key name m) = None"
        using tr(9) o1 by (metis fun_upd_same)
      have keep: "\<forall>k. objects w' k \<noteq> None \<longrightarrow> objects w' k = objects w k"
        using tr(9) o1 by (metis fun_upd_apply)
      have frame: "\<forall>k. k \<notin> object_key name ` {x \<in> set (m # cur). undesired keys x} \<longrightarrow>
            objects w' k = objects w k"
      proof (intro allI impI)
        fix k assume k: "k \<notin> object_key name ` {x \<in> set (m # cur). undesired keys x}"
        with True have "k \<noteq> object_key name m"
          "k \<notin> object_key name ` {x \<in> set cur. undesired keys x}"
          by auto
        from tr(8)[rule_format, OF this(2)] o1 this(1) show "objects w' k = objects w k"
          by simp
      qed
      have bl: "\<forall>cr \<in> set (butlast ((ObjDelete (object_key name m), r) # tr)). \<not> failed (snd cr)"
        using tr(3) f by (auto simp: butlast.simps split: if_splits)
      show ?thesis
        apply (rule exI[of _ "(ObjDelete (object_key name m), r) # tr"])
        apply (intro conjI)
        subgoal using tr(1) r(1) by simp
        subgoal using tr(2) True by simp
        subgoal using bl .
        subgoal using tr(4) True f by simp
        subgoal using tr(5) by simp
        subgoal using tr(6) r(3) by simp
        subgoal using tr(7) r(4) by simp
        subgoal using frame .
        subgoal using keep .
        subgoal using tr(10) gone by auto
        done
    qed
  qed
qed

text \<open>
  The retry loop, for a function whose failed runs are related by \<open>A\<close> and whose
  successful run by \<open>S\<close>.
\<close>

lemma retry_loop_rule:
  assumes step: "\<And>w err w'. fn w = (err, w') \<Longrightarrow> (err \<noteq> None \<longrightarrow> A w w') \<and> (err = None \<longrightarrow> S w w')"
    and refl: "\<And>w. A w w"
    and trans: "\<And>w w1 w2. A w w1 \<Longrightarrow> A w1 w2 \<Longrightarrow> A w w2"
    and comp: "\<And>w w1 w2. A w w1 \<Longrightarrow> S w1 w2 \<Longrightarrow> S w w2"
  shows "retry_loop n fn lastErr w = (err, w') \<Longrightarrow> lastErr \<noteq> None \<or> 0 < n \<Longrightarrow>
    (err \<noteq> None \<longrightarrow> A w w') \<and> (err = None \<longrightarrow> S w w')"
proof (induction n arbitrary: lastErr w)
  case 0
  then show ?case using refl by auto
next
  case (Suc n)
  obtain e1 w1 where f: "fn w = (e1, w1)"
    by (cases "fn w") simp
  show ?case
  proof (cases "e1 = Some Conflict")
    case True
    with Suc.prems(1) f have "retry_loop n fn (Some Conflict) w1 = (err, w')"
      by simp
    from Suc.IH[OF this] have "(err \<noteq> None \<longrightarrow> A w1 w') \<and> (err = None \<longrightarrow> S w1 w')"
      by simp
    moreover from step[OF f] True have "A w w1" by simp
    ultimately show ?thesis using trans comp by blast
  next
    case False
    with Suc.prems(1) f have "err = e1" "w' = w1"
      by (auto split: option.splits if_splits)
    with step[OF f] show ?thesis by simp
  qed
qed

lemma updateManagedResources_attempt_spec:
  assumes "updateManagedResources_attempt E name managed w = (err, w')"
  shows "classes w' = classes w \<and> objects w' = objects w
    \<and> extends (\<lambda>c. c = NsGet name \<or> c = NsUpdate name) w w'
    \<and> (err \<noteq> None \<longrightarrow> namespaces w' = namespaces w)
    \<and> (err = None \<longrightarrow> (\<exists>ns. namespaces w name = Some ns \<and>
          namespaces w' = (namespaces w)(name \<mapsto> ns\<lparr>Annotations := (Annotations ns)
             (AnnotationKey := if managed = [] then None else json_Marshal_managed E managed)\<rparr>)))"
proof -
  obtain r w1 where g: "client_Get_Namespace name w = (r, w1)"
    by (cases "client_Get_Namespace name w") simp
  note gs = client_Get_Namespace_spec[OF g]
  have e1: "extends (\<lambda>c. c = NsGet name \<or> c = NsUpdate name) w w1"
    using gs by (intro extends_single[of w1 w "NsGet name"]) auto
  show ?thesis
  proof (cases r)
    case (Inl e)
    with assms g have "err = Some e" "w' = w1"
      by (auto simp: updateManagedResources_attempt_def)
    with gs e1 show ?thesis by simp
  next
    case (Inr ns)
    with gs have ns: "namespaces w name = Some ns" by simp
    show ?thesis
    proof (cases "managed \<noteq> [] \<and> json_Marshal_managed E managed = None")
      case True
      with assms g Inr have "err = Some JSONError" "w' = w1"
        by (auto simp: updateManagedResources_attempt_def)
      with gs e1 show ?thesis by simp
    next
      case False
      define ns' where "ns' = ns\<lparr>Annotations := (Annotations ns)
             (AnnotationKey := if managed = [] then None else json_Marshal_managed E managed)\<rparr>"
      from False assms g Inr have u: "client_Update_Namespace name ns' w1 = (err, w')"
        by (auto simp: updateManagedResources_attempt_def ns'_def split: option.splits)
      note us = client_Update_Namespace_spec[OF u]
      have e2: "extends (\<lambda>c. c = NsGet name \<or> c = NsUpdate name) w1 w'"
        using us by (intro extends_single[of w' w1 "NsUpdate name"]) auto
      have "err \<noteq> None \<longrightarrow> namespaces w' = namespaces w"
        using us gs by (cases err) auto
      moreover have "err = None \<longrightarrow> namespaces w' = (namespaces w)(name \<mapsto> ns')"
        using us gs by (cases err) auto
      ultimately show ?thesis
        using us gs ns extends_trans[OF e1 e2] by (simp add: ns'_def)
    qed
  qed
qed

lemma updateManagedResources_spec:
  assumes "updateManagedResources E name managed w = (err, w')"
  shows "classes w' = classes w \<and> objects w' = objects w
    \<and> extends (\<lambda>c. c = NsGet name \<or> c = NsUpdate name) w w'
    \<and> (err \<noteq> None \<longrightarrow> namespaces w' = namespaces w)
    \<and> (err = None \<longrightarrow> (\<exists>ns. namespaces w name = Some ns \<and>
          namespaces w' = (namespaces w)(name \<mapsto> ns\<lparr>Annotations := (Annotations ns)
             (AnnotationKey := if managed = [] then None else json_Marshal_managed E managed)\<rparr>)))"
proof -
  define A where "A = (\<lambda>w w'. classes w' = classes w \<and> objects w' = objects w
    \<and> extends (\<lambda>c. c = NsGet name \<or> c = NsUpdate name) w w' \<and> namespaces w' = namespaces w)"
  define S where "S = (\<lambda>w w'. classes w' = classes w \<and> objects w' = objects w
    \<and> extends (\<lambda>c. c = NsGet name \<or> c = NsUpdate name) w w'
    \<and> (\<exists>ns. namespaces w name = Some ns \<and>
          namespaces w' = (namespaces w)(name \<mapsto> ns\<lparr>Annotations := (Annotations ns)
             (AnnotationKey := if managed = [] then None else json_Marshal_managed E managed)\<rparr>)))"
  have "(err \<noteq> None \<longrightarrow> A w w') \<and> (err = None \<longrightarrow> S w w')"
  proof (rule retry_loop_rule[where fn = "updateManagedResources_attempt E name managed"
        and n = DefaultRetry_Steps and lastErr = None])
    show "retry_loop DefaultRetry_Steps (updateManagedResources_attempt E name managed) None w
      = (err, w')"
      using assms by (simp add: updateManagedResources_def RetryOnConflict_def)
    show "None \<noteq> None \<or> 0 < DefaultRetry_Steps"
      by (simp add: DefaultRetry_Steps_def)
    show "\<And>w err w'. updateManagedResources_attempt E name managed w = (err, w') \<Longrightarrow>
        (err \<noteq> None \<longrightarrow> A w w') \<and> (err = None \<longrightarrow> S w w')"
      using updateManagedResources_attempt_spec unfolding A_def S_def by blast
    show "\<And>w. A w w" by (simp add: A_def)
    show "\<And>w w1 w2. A w w1 \<Longrightarrow> A w1 w2 \<Longrightarrow> A w w2"
      unfolding A_def using extends_trans by auto
    show "\<And>w w1 w2. A w w1 \<Longrightarrow> S w1 w2 \<Longrightarrow> S w w2"
      unfolding A_def S_def using extends_trans by auto
  qed
  then show ?thesis
    unfolding A_def S_def by blast
qed

lemma updateNamespaceClassStatus_attempt_spec:
  assumes "updateNamespaceClassStatus_attempt className name w = (err, w')"
  shows "namespaces w' = namespaces w \<and> objects w' = objects w
    \<and> extends (\<lambda>c. c = ClassGet className \<or> c = ClassStatusUpdate className) w w'"
proof -
  obtain r w1 where g: "client_Get_Class className w = (r, w1)"
    by (cases "client_Get_Class className w") simp
  note gs = client_Get_Class_spec[OF g]
  have e1: "extends (\<lambda>c. c = ClassGet className \<or> c = ClassStatusUpdate className) w w1"
    using gs by (intro extends_single[of w1 w "ClassGet className"]) auto
  show ?thesis
  proof (cases "w' = w1")
    case True
    with gs e1 show ?thesis by simp
  next
    case False
    with assms g obtain nsc' where u: "client_Status_Update className nsc' w1 = (err, w')"
      by (auto simp: updateNamespaceClassStatus_attempt_def split: sum.splits if_splits)
    note us = client_Status_Update_spec[OF u]
    have e2: "extends (\<lambda>c. c = ClassGet className \<or> c = ClassStatusUpdate className) w1 w'"
      using us by (intro extends_single[of w' w1 "ClassStatusUpdate className"]) auto
    show ?thesis
      using us gs extends_trans[OF e1 e2] by simp
  qed
qed

lemma updateNamespaceClassStatus_spec:
  assumes "updateNamespaceClassStatus className name w = (err, w')"
  shows "namespaces w' = namespaces w \<and> objects w' = objects w
    \<and> extends (\<lambda>c. c = ClassGet className \<or> c = ClassStatusUpdate className) w w'"
proof -
  define A where "A = (\<lambda>w w'. namespaces w' = namespaces w \<and> objects w' = objects w
    \<and> extends (\<lambda>c. c = ClassGet className \<or> c = ClassStatusUpdate className) w w')"
  have "(err \<noteq> None \<longrightarrow> A w w') \<and> (err = None \<longrightarrow> A w w')"
  proof (rule retry_loop_rule[where fn = "updateNamespaceClassStatus_attempt className name"
        and n = DefaultRetry_Steps and lastErr = None])
    show "retry_loop DefaultRetry_Steps (updateNamespaceClassStatus_attempt className name) None w
      = (err, w')"
      using assms by (simp add: updateNamespaceClassStatus_def RetryOnConflict_def)
    show "None \<noteq> None \<or> 0 < DefaultRetry_Steps"
      by (simp add: DefaultRetry_Steps_def)
    show "\<And>w err w'. updateNamespaceClassStatus_attempt className name w = (err, w') \<Longrightarrow>
        (err \<noteq> None \<longrightarrow> A w w') \<and> (err = None \<longrightarrow> A w w')"
      using updateNamespaceClassStatus_attempt_spec unfolding A_def by blast
    show "\<And>w. A w w" by (simp add: A_def)
    show "\<And>w w1 w2. A w w1 \<Longrightarrow> A w1 w2 \<Longrightarrow> A w w2"
      unfolding A_def using extends_trans by auto
    show "\<And>w w1 w2. A w w1 \<Longrightarrow> A w1 w2 \<Longrightarrow> A w w2"
      unfolding A_def using extends_trans by auto
  qed
  then show ?thesis
    unfolding A_def by blast
qed

text \<open>Create-or-update touches the key of the desired resource only.\<close>

lemma createOrUpdateResource_spec:
  assumes "createOrUpdateResource d w = (err, w')"
  shows "namespaces w' = namespaces w \<and> classes w' = classes w
    \<and> extends (\<lambda>c. c = ObjGet (obj_key_of d) \<or> c = ObjCreate (obj_key_of d)
          \<or> c = ObjUpdate (obj_key_of d)) w w'
    \<and> (\<forall>k. k \<noteq> obj_key_of d \<longrightarrow> objects w' k = objects w k)
    \<and> (objects w' (obj_key_of d) = objects w (obj_key_of d)
         \<or> objects w' (obj_key_of d) = Some d
         \<or> (\<exists>v. objects w' (obj_key_of d) = Some (SetResourceVersion v d)))
    \<and> (err = None \<longrightarrow> objects w' (obj_key_of d) \<noteq> None)"
proof -
  let ?P = "\<lambda>c. c = ObjGet (obj_key_of d) \<or> c = ObjCreate (obj_key_of d)
          \<or> c = ObjUpdate (obj_key_of d)"
  obtain r w1 where g: "client_Get (obj_key_of d) w = (r, w1)"
    by (cases "client_Get (obj_key_of d) w") simp
  note gs = client_Get_spec[OF g]
  have e1: "extends ?P w w1"
    using gs by (intro extends_single[of w1 w "ObjGet (obj_key_of d)"]) auto
  show ?thesis
  proof (cases r)
    case (Inl e)
    show ?thesis
    proof (cases "e = NotFound")
      case True
      with assms g Inl have c: "client_Create d w1 = (err, w')"
        by (simp add: createOrUpdateResource_def)
      note cs = client_Create_spec[OF c]
      have e2: "extends ?P w1 w'"
        using cs by (intro extends_single[of w' w1 "ObjCreate (obj_key_of d)"]) auto
      have "objects w' = objects w \<or> objects w' = (objects w)(obj_key_of d \<mapsto> d)"
        using cs gs by (cases err) auto
      moreover have "err = None \<longrightarrow> objects w' = (objects w)(obj_key_of d \<mapsto> d)"
        using cs gs by auto
      ultimately show ?thesis
        using cs gs extends_trans[OF e1 e2] by auto
    next
      case False
      with assms g Inl have "err = Some e" "w' = w1"
        by (simp_all add: createOrUpdateResource_def)
      with gs e1 show ?thesis by simp
    qed
  next
    case (Inr existing)
    with gs have ex: "objects w (obj_key_of d) = Some existing" by simp
    show ?thesis
    proof (cases "index_map (GetAnnotations existing) ResourceHashAnnotation
        \<noteq> index_map (GetAnnotations d) ResourceHashAnnotation")
      case True
      define d' where "d' = SetResourceVersion (GetResourceVersion existing) d"
      from True assms g Inr have u: "client_Update d' w1 = (err, w')"
        by (simp add: createOrUpdateResource_def d'_def)
      have k: "obj_key_of d' = obj_key_of d" by (simp add: d'_def)
      note us = client_Update_spec[OF u, unfolded k]
      have e2: "extends ?P w1 w'"
        using us by (intro extends_single[of w' w1 "ObjUpdate (obj_key_of d)"]) auto
      have "objects w' = objects w \<or> objects w' = (objects w)(obj_key_of d \<mapsto> d')"
        using us gs by (cases err) auto
      then show ?thesis
        using us gs ex extends_trans[OF e1 e2] d'_def by auto
    next
      case False
      with assms g Inr have "err = None" "w' = w1"
        by (simp_all add: createOrUpdateResource_def)
      with gs e1 ex show ?thesis by simp
    qed
  qed
qed

text \<open>When the resource is there with the hash of the desired one, nothing is written.\<close>

lemma createOrUpdateResource_unchanged:
  assumes "createOrUpdateResource d w = (err, w')"
    and "objects w (obj_key_of d) = Some existing"
    and "index_map (GetAnnotations existing) ResourceHashAnnotation
        = index_map (GetAnnotations d) ResourceHashAnnotation"
  shows "objects w' = objects w \<and> extends (\<lambda>c. \<not> is_write c) w w'"
proof -
  obtain r w1 where g: "client_Get (obj_key_of d) w = (r, w1)"
    by (cases "client_Get (obj_key_of d) w") simp
  note gs = client_Get_spec[OF g]
  have e1: "extends (\<lambda>c. \<not> is_write c) w w1"
    using gs by (intro extends_single[of w1 w "ObjGet (obj_key_of d)"]) auto
  have "w' = w1"
  proof (cases r)
    case (Inl e)
    with gs assms(2) have "e \<noteq> NotFound"
      using next_fault_not_NotFound[of w] by auto
    with assms(1) g Inl show ?thesis
      by (simp add: createOrUpdateResource_def)
  next
    case (Inr ex)
    with gs assms(2) have "ex = existing" by simp
    with assms(1,3) g Inr show ?thesis
      by (simp add: createOrUpdateResource_def)
  qed
  with gs e1 show ?thesis by simp
qed

section \<open>The start of a pass\<close>

lemma after_call_fields [simp]:
  "namespaces (after_call c r w) = namespaces w"
  "classes (after_call c r w) = classes w"
  "objects (after_call c r w) = objects w"
  "clock (after_call c r w) = clock w"
  "faults (after_call c r w) = tl (faults w)"
  "calls (after_call c r w) = calls w @ [(c, r)]"
  by (simp_all add: after_call_def log_call_def)

lemma issued_after_call [simp]: "issued w (after_call c r w) = [(c, r)]"
  by (simp add: issued_def)

lemma passes_Suc: "passes (Suc n) w \<longleftrightarrow> next_fault w = None \<and> passes n (after_call c r w)"
proof (cases "faults w")
  case Nil
  then show ?thesis by (simp add: passes_def next_fault_def)
next
  case (Cons f fs)
  then show ?thesis by (cases f) (simp_all add: passes_def next_fault_def)
qed

lemma passes_0 [simp]: "passes 0 w"
  by (simp add: passes_def)

lemma passes_faults_cong: "faults w' = faults w \<Longrightarrow> passes n w' = passes n w"
  by (simp add: passes_def)

lemma next_fault_cong: "faults w' = faults w \<Longrightarrow> next_fault w' = next_fault w"
  by (simp add: next_fault_def)

lemma client_Get_Namespace_fault:
  "next_fault w = Some e \<Longrightarrow>
   client_Get_Namespace name w = (Inl e, after_call (NsGet name) (Some e) w)"
  by (simp add: client_Get_Namespace_def call_def after_call_def)

lemma client_Get_Namespace_found:
  "next_fault w = None \<Longrightarrow> namespaces w name = Some ns \<Longrightarrow>
   client_Get_Namespace name w = (Inr ns, after_call (NsGet name) None w)"
  by (simp add: client_Get_Namespace_def call_def after_call_def)

lemma client_Get_Class_fault:
  "next_fault w = Some e \<Longrightarrow>
   client_Get_Class name w = (Inl e, after_call (ClassGet name) (Some e) w)"
  by (simp add: client_Get_Class_def call_def after_call_def)

lemma client_Get_Class_found:
  "next_fault w = None \<Longrightarrow> classes w name = Some nsc \<Longrightarrow>
   client_Get_Class name w = (Inr nsc, after_call (ClassGet name) None w)"
  by (simp add: client_Get_Class_def call_def after_call_def)

lemma client_Update_Namespace_fault:
  "next_fault w = Some e \<Longrightarrow>
   client_Update_Namespace name ns w = (Some e, after_call (NsUpdate name) (Some e) w)"
  by (simp add: client_Update_Namespace_def call_def after_call_def)

lemma client_Update_Namespace_done:
  "next_fault w = None \<Longrightarrow> namespaces w name = Some old \<Longrightarrow>
   client_Update_Namespace name ns w =
     (None, (after_call (NsUpdate name) None w)\<lparr>namespaces := (namespaces w)(name \<mapsto> ns)\<rparr>)"
  by (simp add: client_Update_Namespace_def call_def after_call_def log_call_def)

lemma Reconcile_fetch_fault:
  assumes "next_fault w = Some e"
  shows "Reconcile E name w = ((Result_empty, Some e), after_call (NsGet name) (Some e) w)"
proof -
  from assms next_fault_not_NotFound[of w] have "e \<noteq> NotFound" by auto
  with assms show ?thesis
    by (simp add: Reconcile_def client_Get_Namespace_fault)
qed

lemma Reconcile_fetched:
  assumes "next_fault w = None" "namespaces w name = Some ns"
  shows "Reconcile E name w =
    (if \<not> IsZero (DeletionTimestamp ns)
     then handleNamespaceDeletion E name ns (after_call (NsGet name) None w)
     else case getManagedResources E ns of
       Inl e \<Rightarrow> ((Result_empty, Some e), after_call (NsGet name) None w)
     | Inr currentManaged \<Rightarrow>
         (case Labels ns LabelKey of
            None \<Rightarrow> reconcile_unbound E name ns currentManaged (after_call (NsGet name) None w)
          | Some className \<Rightarrow>
              if NamespaceFinalizer \<notin> set (Finalizers ns) then
                (case client_Update_Namespace name (AddFinalizer NamespaceFinalizer ns)
                        (after_call (NsGet name) None w) of
                   (Some e, w2) \<Rightarrow> ((Result_empty, Some e), w2)
                 | (None, w2) \<Rightarrow> ((Result_empty\<lparr>Requeue := True\<rparr>, None), w2))
              else reconcile_bound E name className currentManaged
                     (after_call (NsGet name) None w)))"
  using assms
  by (simp add: Reconcile_def client_Get_Namespace_found split: sum.splits option.splits)

lemma getManagedResources_corrupt:
  "Annotations ns AnnotationKey = Some v \<Longrightarrow> v \<noteq> [] \<Longrightarrow> json_Unmarshal_managed E v = None \<Longrightarrow>
   getManagedResources E ns = Inl JSONError"
  by (simp add: getManagedResources_def annotation_value_def)

lemma Reconcile_corrupt:
  assumes "getManagedResources E ns = Inl e"
    and "next_fault w = None" "namespaces w name = Some ns"
    and "IsZero (DeletionTimestamp ns) \<or> NamespaceFinalizer \<in> set (Finalizers ns)"
  shows "Reconcile E name w = ((Result_empty, Some e), after_call (NsGet name) None w)"
  using assms by (auto simp: Reconcile_fetched handleNamespaceDeletion_def)

text \<open>A pass over a bound namespace whose class has a template that does not validate.\<close>

lemma reconcile_bound_invalid:
  assumes "classes w className = Some nsc"
    and "parseResources E (Resources nsc) className = Inl e0"
  shows "\<exists>e r. reconcile_bound E name className cur w =
     ((Result_empty, Some e), after_call (ClassGet className) r w)"
proof (cases "next_fault w")
  case None
  show ?thesis
    apply (rule exI[of _ e0], rule exI[of _ None])
    using None assms by (simp add: reconcile_bound_def client_Get_Class_found)
next
  case (Some e)
  with next_fault_not_NotFound[of w] have "e \<noteq> NotFound" by auto
  show ?thesis
    apply (rule exI[of _ e], rule exI[of _ "Some e"])
    using Some \<open>e \<noteq> NotFound\<close> by (simp add: reconcile_bound_def client_Get_Class_fault)
qed

section \<open>The pass over a bound namespace\<close>

text \<open>
  The apply loop writes only at the keys of the templates, never removes a resource, and
  every resource it writes carries the managed-by tag.
\<close>

lemma apply_desired_spec:
  assumes "apply_desired E name cn us acc w = (r, w')"
    and "\<forall>u \<in> set us. GetName u \<noteq> []"
  shows "namespaces w' = namespaces w \<and> classes w' = classes w
    \<and> extends is_apply_call w w'
    \<and> (\<forall>k. k \<notin> (\<lambda>u. (GetAPIVersion u, GetKind u, name, GetName u)) ` set us \<longrightarrow>
          objects w' k = objects w k)
    \<and> (\<forall>k obj. objects w' k = Some obj \<longrightarrow>
          objects w k = Some obj \<or> managed_by_controller obj)
    \<and> (\<forall>k. objects w k \<noteq> None \<longrightarrow> objects w' k \<noteq> None)
    \<and> (\<forall>managed. r = Inr managed \<longrightarrow> managed = acc @ map (managed_entry E name cn) us
          \<and> (\<forall>k \<in> (\<lambda>u. (GetAPIVersion u, GetKind u, name, GetName u)) ` set us.
                objects w' k \<noteq> None))"
  using assms
proof (induction us arbitrary: acc w)
  case Nil
  then have "r = Inr acc" "w' = w" by simp_all
  then show ?case by simp
next
  case (Cons u us)
  let ?d = "stamp_resource E name cn u"
  let ?k = "(GetAPIVersion u, GetKind u, name, GetName u)"
  let ?K = "(\<lambda>u. (GetAPIVersion u, GetKind u, name, GetName u)) ` set us"
  from Cons.prems(2) have nm: "GetName u \<noteq> []" and rest: "\<forall>u \<in> set us. GetName u \<noteq> []"
    by simp_all
  have key: "obj_key_of ?d = ?k" using nm by (rule obj_key_of_stamp)
  have tag: "managed_by_controller ?d" "\<And>v. managed_by_controller (SetResourceVersion v ?d)"
    using nm by (simp_all add: stamp_resource_managed)
  obtain e1 w1 where c: "createOrUpdateResource ?d w = (e1, w1)"
    by (cases "createOrUpdateResource ?d w") simp
  note cs = createOrUpdateResource_spec[OF c, unfolded key]
  from cs have ext1: "extends is_apply_call w w1"
    by (auto elim!: extends_mono)
  from cs have frame1: "\<And>k. k \<noteq> ?k \<Longrightarrow> objects w1 k = objects w k" by blast
  have old1: "\<And>k obj. objects w1 k = Some obj \<Longrightarrow>
      objects w k = Some obj \<or> managed_by_controller obj"
  proof -
    fix k obj assume o: "objects w1 k = Some obj"
    show "objects w k = Some obj \<or> managed_by_controller obj"
    proof (cases "k = ?k")
      case False
      with frame1 o show ?thesis by simp
    next
      case True
      with cs o tag show ?thesis by auto
    qed
  qed
  have keep1: "\<And>k. objects w k \<noteq> None \<Longrightarrow> objects w1 k \<noteq> None"
  proof -
    fix k assume o: "objects w k \<noteq> None"
    show "objects w1 k \<noteq> None"
    proof (cases "k = ?k")
      case False
      with frame1 o show ?thesis by simp
    next
      case True
      with cs o show ?thesis by auto
    qed
  qed
  show ?case
  proof (cases e1)
    case (Some e)
    with Cons.prems(1) c have "r = Inl e" "w' = w1" by simp_all
    with cs ext1 frame1 old1 keep1 show ?thesis by auto
  next
    case None
    with Cons.prems(1) c
    have rec: "apply_desired E name cn us (acc @ [managed_entry E name cn u]) w1 = (r, w')"
      by simp
    note ih = Cons.IH[OF rec rest]
    note ih_ns = ih[THEN conjunct1] ih[THEN conjunct2, THEN conjunct1]
    note ih_ext = ih[THEN conjunct2, THEN conjunct2, THEN conjunct1]
    note ih_frame = ih[THEN conjunct2, THEN conjunct2, THEN conjunct2, THEN conjunct1]
    note ih_old = ih[THEN conjunct2, THEN conjunct2, THEN conjunct2, THEN conjunct2, THEN conjunct1]
    note ih_keep = ih[THEN conjunct2, THEN conjunct2, THEN conjunct2, THEN conjunct2, THEN conjunct2, THEN conjunct1]
    note ih_res = ih[THEN conjunct2, THEN conjunct2, THEN conjunct2, THEN conjunct2, THEN conjunct2, THEN conjunct2]
    from cs None have there: "objects w1 ?k \<noteq> None" by simp
    have frame: "\<forall>k. k \<notin> insert ?k ?K \<longrightarrow> objects w' k = objects w k"
    proof (intro allI impI)
      fix k assume "k \<notin> insert ?k ?K"
      then have "k \<noteq> ?k" "k \<notin> ?K" by auto
      with ih_frame[rule_format, of k] frame1[of k] show "objects w' k = objects w k" by simp
    qed
    have old: "\<forall>k obj. objects w' k = Some obj \<longrightarrow>
        objects w k = Some obj \<or> managed_by_controller obj"
    proof (intro allI impI)
      fix k obj assume "objects w' k = Some obj"
      with ih_old[rule_format, of k obj] old1[of k obj]
      show "objects w k = Some obj \<or> managed_by_controller obj" by blast
    qed
    have keep: "\<forall>k. objects w k \<noteq> None \<longrightarrow> objects w' k \<noteq> None"
    proof (intro allI impI)
      fix k assume "objects w k \<noteq> None"
      with ih_keep[rule_format, of k] keep1[of k] show "objects w' k \<noteq> None" by blast
    qed
    have res: "\<forall>managed. r = Inr managed \<longrightarrow>
        managed = acc @ map (managed_entry E name cn) (u # us)
        \<and> (\<forall>k \<in> insert ?k ?K. objects w' k \<noteq> None)"
    proof (intro allI impI)
      fix managed assume "r = Inr managed"
      with ih_res have m: "managed = (acc @ [managed_entry E name cn u]) @ map (managed_entry E name cn) us"
        and k: "\<forall>k \<in> ?K. objects w' k \<noteq> None"
        by blast+
      from ih_keep[rule_format, of ?k] there have "objects w' ?k \<noteq> None" by blast
      with m k show "managed = acc @ map (managed_entry E name cn) (u # us)
        \<and> (\<forall>k \<in> insert ?k ?K. objects w' k \<noteq> None)"
        by simp
    qed
    have "namespaces w' = namespaces w" "classes w' = classes w"
      using ih_ns cs by simp_all
    moreover have "extends is_apply_call w w'"
      using ext1 ih_ext extends_trans by blast
    ultimately show ?thesis
      using frame old keep res by simp
  qed
qed

text \<open>When every template is live with its hash, the loop only reads.\<close>

lemma apply_desired_unchanged:
  assumes "apply_desired E name cn us acc w = (r, w')"
    and "\<forall>u \<in> set us. GetName u \<noteq> [] \<and>
      (\<exists>existing. objects w (GetAPIVersion u, GetKind u, name, GetName u) = Some existing
         \<and> index_map (GetAnnotations existing) ResourceHashAnnotation
             = calculateResourceHash E u)"
  shows "objects w' = objects w \<and> namespaces w' = namespaces w \<and> classes w' = classes w
    \<and> extends (\<lambda>c. \<not> is_write c) w w'"
  using assms
proof (induction us arbitrary: acc w)
  case Nil
  then show ?case by simp
next
  case (Cons u us)
  let ?d = "stamp_resource E name cn u"
  from Cons.prems(2) obtain existing where nm: "GetName u \<noteq> []"
    and ex: "objects w (GetAPIVersion u, GetKind u, name, GetName u) = Some existing"
    and h: "index_map (GetAnnotations existing) ResourceHashAnnotation = calculateResourceHash E u"
    by auto
  obtain e1 w1 where c: "createOrUpdateResource ?d w = (e1, w1)"
    by (cases "createOrUpdateResource ?d w") simp
  from ex nm have ex': "objects w (obj_key_of ?d) = Some existing"
    by (simp add: obj_key_of_stamp)
  from h nm have h': "index_map (GetAnnotations existing) ResourceHashAnnotation
      = index_map (GetAnnotations ?d) ResourceHashAnnotation"
    by (simp add: stamp_resource_hash)
  note u = createOrUpdateResource_unchanged[OF c ex' h']
  note cs = createOrUpdateResource_spec[OF c]
  show ?case
  proof (cases e1)
    case (Some e)
    with Cons.prems(1) c have "w' = w1" by simp
    with u cs show ?thesis by simp
  next
    case None
    with Cons.prems(1) c
    have rec: "apply_desired E name cn us (acc @ [managed_entry E name cn u]) w1 = (r, w')"
      by simp
    from Cons.prems(2) u have "\<forall>u \<in> set us. GetName u \<noteq> [] \<and>
      (\<exists>existing. objects w1 (GetAPIVersion u, GetKind u, name, GetName u) = Some existing
         \<and> index_map (GetAnnotations existing) ResourceHashAnnotation
             = calculateResourceHash E u)"
      by simp
    from Cons.IH[OF rec this] u cs show ?thesis
      using extends_trans by auto
  qed
qed

text \<open>The ways a pass over a bound namespace can end, once the class is known.\<close>

lemma reconcile_bound_cases:
  assumes "reconcile_bound E name cn cur w = ((res, err), w')"
    and "classes w cn = Some nsc" "parseResources E (Resources nsc) cn = Inr desired"
  obtains
    (class_fault) e where "next_fault w = Some e" "err = Some e" "res = Result_empty"
      "w' = after_call (ClassGet cn) (Some e) w"
  | (apply_failed) e where "next_fault w = None" "err = Some e" "res = Result_empty"
      "apply_desired E name cn desired [] (after_call (ClassGet cn) None w) = (Inl e, w')"
  | (cleanup_failed) managed w2 e where "next_fault w = None" "err = Some e" "res = Result_empty"
      "apply_desired E name cn desired [] (after_call (ClassGet cn) None w) = (Inr managed, w2)"
      "cleanup_undesired name (set (map resource_key managed)) cur w2 = (Some e, w')"
  | (ledger_failed) managed w2 w3 e where "next_fault w = None" "err = Some e"
      "res = Result_empty"
      "apply_desired E name cn desired [] (after_call (ClassGet cn) None w) = (Inr managed, w2)"
      "cleanup_undesired name (set (map resource_key managed)) cur w2 = (None, w3)"
      "updateManagedResources E name managed w3 = (Some e, w')"
  | (completed) managed w2 w3 w4 where "next_fault w = None" "res = Result_empty"
      "apply_desired E name cn desired [] (after_call (ClassGet cn) None w) = (Inr managed, w2)"
      "cleanup_undesired name (set (map resource_key managed)) cur w2 = (None, w3)"
      "updateManagedResources E name managed w3 = (None, w4)"
      "updateNamespaceClassStatus cn name w4 = (err, w')"
proof (cases "next_fault w")
  case (Some e)
  with next_fault_not_NotFound[of w] have "e \<noteq> NotFound" by auto
  with Some assms(1) show ?thesis
    by (intro class_fault[of e]) (auto simp: reconcile_bound_def client_Get_Class_fault)
next
  case None
  let ?w1 = "after_call (ClassGet cn) None w"
  obtain ra w2 where a: "apply_desired E name cn desired [] ?w1 = (ra, w2)"
    by (cases "apply_desired E name cn desired [] ?w1") simp
  show ?thesis
  proof (cases ra)
    case (Inl e)
    with None a assms show ?thesis
      by (intro apply_failed[of e]) (auto simp: reconcile_bound_def client_Get_Class_found)
  next
    case (Inr managed)
    obtain ec w3 where c: "cleanup_undesired name (set (map resource_key managed)) cur w2 = (ec, w3)"
      by (cases "cleanup_undesired name (set (map resource_key managed)) cur w2") simp
    show ?thesis
    proof (cases ec)
      case (Some e)
      with None a Inr c assms show ?thesis
        by (intro cleanup_failed[of e managed w2])
          (auto simp: reconcile_bound_def client_Get_Class_found)
    next
      case ecNone: None
      obtain eu w4 where u: "updateManagedResources E name managed w3 = (eu, w4)"
        by (cases "updateManagedResources E name managed w3") simp
      show ?thesis
      proof (cases eu)
        case (Some e)
        with None a Inr c ecNone u assms show ?thesis
          by (intro ledger_failed[of e managed w2 w3])
            (auto simp: reconcile_bound_def client_Get_Class_found)
      next
        case euNone: None
        with None a Inr c ecNone u assms show ?thesis
          by (intro completed[of managed w2 w3 w4])
            (auto simp: reconcile_bound_def client_Get_Class_found split: prod.splits)
      qed
    qed
  qed
qed

section \<open>Evaluating concrete runs\<close>

lemmas run_defs = Reconcile_def reconcile_unbound_def reconcile_bound_def
  handleNamespaceDeletion_def client_Get_Namespace_def client_Update_Namespace_def
  client_Get_Class_def client_Status_Update_def client_Get_def client_Create_def
  client_Update_def client_Delete_def call_def log_call_def next_fault_def
  deleteResource_def updateManagedResources_def updateManagedResources_attempt_def
  updateNamespaceClassStatus_def updateNamespaceClassStatus_attempt_def
  RetryOnConflict_def DefaultRetry_Steps_def getManagedResources_def annotation_value_def
  IsZero_def Let_def createOrUpdateResource_def eval_nat_numeral AnnotationKey_def
  LabelKey_def NamespaceFinalizer_def AddFinalizer_def RemoveFinalizer_def

lemmas demo_defs = world_of_def class_of_def ns_unbound_def ns_bound_def ns_corrupt_def
  ns_deleting_def ns_empty_ledger_def key_p_def key_q_def world_unbound_failing_def
  world_stale_failing_def world_deleting_def world_matching_def world_switch_def
  world_partial_def world_orphan_def

text \<open>The concrete library, ledgers and templates, evaluated once.\<close>

lemma demo_lib_fields:
  "json_Marshal_managed demo_lib ms = Some (marshal_ledger ms)"
  "json_Unmarshal_managed demo_lib (marshal_ledger [entry_p]) = Some [entry_p]"
  "json_Unmarshal_managed demo_lib (marshal_ledger [entry_q]) = Some [entry_q]"
  "json_Unmarshal_managed demo_lib (marshal_ledger [entry_p, entry_q]) = Some [entry_p, entry_q]"
  "json_Unmarshal_managed demo_lib ''not json'' = None"
  "json_Unmarshal_managed demo_lib [] = None"
  "json_Unmarshal_object demo_lib ''policy'' = Some demo_policy"
  "json_Unmarshal_object demo_lib ''quota'' = Some demo_quota"
  "json_Unmarshal_object demo_lib ''nameless'' = Some demo_nameless"
  by (simp_all add: demo_lib_def marshal_ledger_def resource_key_def entry_p_def entry_q_def)

lemma demo_ledgers:
  "marshal_ledger [entry_p] \<noteq> []" "marshal_ledger [entry_q] \<noteq> []"
  "marshal_ledger [entry_p, entry_q] \<noteq> []" "marshal_ledger [] = []"
  by (simp_all add: marshal_ledger_def resource_key_def entry_p_def entry_q_def)

lemma demo_entry_fields:
  "APIVersion entry_p = ''networking.k8s.io/v1''" "Kind entry_p = ''NetworkPolicy''"
  "Name entry_p = ''p''" "APIVersion entry_q = ''v1''" "Kind entry_q = ''ResourceQuota''"
  "Name entry_q = ''q''"
  "resource_key entry_p = ''networking.k8s.io/v1/NetworkPolicy/p''"
  "resource_key entry_q = ''v1/ResourceQuota/q''"
  "object_key ''n'' entry_p = key_p" "object_key ''n'' entry_q = key_q"
  "key_p \<noteq> key_q" "key_q \<noteq> key_p"
  by (simp_all add: resource_key_def object_key_def entry_p_def entry_q_def key_p_def key_q_def)

lemma demo_policy_fields:
  "GetAPIVersion demo_policy = ''networking.k8s.io/v1''" "GetKind demo_policy = ''NetworkPolicy''"
  "GetName demo_policy = ''p''"
  by (simp_all add: demo_policy_def GetAPIVersion_def GetKind_def GetName_def metadata_field_def)

lemma demo_quota_fields:
  "GetAPIVersion demo_quota = ''v1''" "GetKind demo_quota = ''ResourceQuota''"
  "GetName demo_quota = ''q''"
  by (simp_all add: demo_quota_def GetAPIVersion_def GetKind_def GetName_def metadata_field_def)

lemma demo_nameless_fields:
  "GetAPIVersion demo_nameless = ''v1''" "GetKind demo_nameless = ''ConfigMap''"
  "GetName demo_nameless = []"
  by (simp_all add: demo_nameless_def GetAPIVersion_def GetKind_def GetName_def
      metadata_field_def)

lemma demo_hashes:
  "calculateResourceHash demo_lib demo_policy = ''7b743a3c493e2c7d''"
  "calculateResourceHash demo_lib demo_quota = ''7b743a3c493e2c7d''"
  by (simp_all add: calculateResourceHash_def demo_lib_def demo_policy_def demo_quota_def
      strip_volatile_def index_object_def sprintf_hex_def hex_digit_def)

lemma demo_entries:
  "managed_entry demo_lib n cn demo_policy = entry_p"
  "managed_entry demo_lib n cn demo_quota = entry_q"
  by (simp_all add: managed_entry_def demo_policy_fields demo_quota_fields demo_hashes
      entry_p_def entry_q_def)

lemma demo_validate:
  "validateResource demo_policy = None" "validateResource demo_quota = None"
  "validateResource demo_nameless = Some ''resource is missing name''"
  by (simp_all add: validateResource_def demo_policy_fields demo_quota_fields
      demo_nameless_fields)

lemma demo_stamped:
  "stamp_resource demo_lib ''n'' ''c'' demo_policy = live_p"
  "stamp_resource demo_lib ''n'' ''c'' demo_quota = live_q"
  by (simp_all add: live_p_def live_q_def)

lemma demo_live_keys:
  "obj_key_of live_p = key_p" "obj_key_of live_q = key_q"
  by (simp_all add: live_p_def live_q_def key_p_def key_q_def obj_key_of_stamp
      demo_policy_fields demo_quota_fields)

lemma demo_live_managed:
  "managed_by_controller live_p" "managed_by_controller live_q"
  by (simp_all add: live_p_def live_q_def stamp_resource_managed
      demo_policy_fields demo_quota_fields)

lemma demo_live_hash:
  "index_map (GetAnnotations live_p) ResourceHashAnnotation = ''7b743a3c493e2c7d''"
  "index_map (GetAnnotations live_q) ResourceHashAnnotation = ''7b743a3c493e2c7d''"
  by (simp_all add: live_p_def live_q_def stamp_resource_hash demo_policy_fields
      demo_quota_fields demo_hashes)

lemmas demo_facts = demo_lib_fields demo_ledgers demo_entry_fields demo_entries demo_validate
  demo_stamped demo_live_keys demo_live_hash demo_policy_fields demo_quota_fields
  demo_nameless_fields demo_hashes object_key_def

lemma is_object_write_not_other:
  "is_object_write c \<Longrightarrow> is_write c \<and> c \<noteq> NsUpdate n \<and> c \<noteq> ClassStatusUpdate n'"
  by (cases c) simp_all

lemma deletes_only:
  assumes "map fst tr = map (\<lambda>m. ObjDelete (object_key name m)) ms"
  shows "filter (\<lambda>cr. is_delete (fst cr)) tr = tr"
proof -
  have "\<forall>c \<in> set (map fst tr). is_delete c"
    unfolding assms by simp
  then show ?thesis by (simp add: filter_id_conv)
qed

lemma deletes_only_take:
  assumes "map fst tr = take n (map (\<lambda>m. ObjDelete (object_key name m)) ms)"
  shows "filter (\<lambda>cr. is_delete (fst cr)) tr = tr"
proof -
  have "set (map fst tr) \<subseteq> set (map (\<lambda>m. ObjDelete (object_key name m)) ms)"
    unfolding assms by (rule set_take_subset)
  then have "\<forall>c \<in> set (map fst tr). is_delete c"
    by auto
  then show ?thesis by (simp add: filter_id_conv)
qed

lemma bex_filter: "(\<exists>x \<in> set (filter P xs). Q x) \<longleftrightarrow> (\<exists>x \<in> set xs. P x \<and> Q x)"
  by auto

lemma no_deletes:
  assumes "\<forall>cr \<in> set tr. P (fst cr)" "\<And>c. P c \<Longrightarrow> \<not> is_delete c"
  shows "filter (\<lambda>cr. is_delete (fst cr)) tr = []"
  using assms by (auto simp: filter_empty_conv)

lemma RemoveFinalizer_gone [simp]: "f \<notin> set (Finalizers (RemoveFinalizer f ns))"
  by (simp add: RemoveFinalizer_def)

text \<open>The teardown of a namespace that is being deleted.\<close>

lemma handleNamespaceDeletion_spec:
  assumes "handleNamespaceDeletion E name ns w = ((res, err), w')"
    and "NamespaceFinalizer \<in> set (Finalizers ns)" "getManagedResources E ns = Inr managed"
  shows "\<exists>tr rest. calls w' = calls w @ tr @ rest
    \<and> map fst tr = map (\<lambda>m. ObjDelete (object_key name m)) managed
    \<and> (if \<exists>cr \<in> set tr. failed (snd cr)
        then rest = [] \<and> res = Result_empty\<lparr>RequeueAfter := Second * 10\<rparr> \<and> err = None
          \<and> namespaces w' = namespaces w
        else rest = [(NsUpdate name, err)] \<and> res = Result_empty
          \<and> (err = None \<longrightarrow>
                namespaces w' = (namespaces w)(name \<mapsto> RemoveFinalizer NamespaceFinalizer ns))
          \<and> (err \<noteq> None \<longrightarrow> namespaces w' = namespaces w)
          \<and> (\<forall>m \<in> set managed. objects w' (object_key name m) = None))"
proof -
  obtain flag w1 where d: "delete_all_managed name managed True w = (flag, w1)"
    by (cases "delete_all_managed name managed True w") simp
  from delete_all_managed_spec[OF d] obtain tr where tr:
    "calls w1 = calls w @ tr"
    "map fst tr = map (\<lambda>m. ObjDelete (object_key name m)) managed"
    "flag \<longleftrightarrow> (\<forall>cr \<in> set tr. \<not> failed (snd cr))"
    "namespaces w1 = namespaces w"
    "flag \<longrightarrow> (\<forall>m \<in> set managed. objects w1 (object_key name m) = None)"
    by auto
  show ?thesis
  proof (cases flag)
    case False
    with assms d have "res = Result_empty\<lparr>RequeueAfter := Second * 10\<rparr>" "err = None" "w' = w1"
      by (simp_all add: handleNamespaceDeletion_def)
    then show ?thesis
      apply -
      apply (rule exI[of _ tr], rule exI[of _ "[]"])
      using tr False by auto
  next
    case True
    obtain eu w2 where u:
      "client_Update_Namespace name (RemoveFinalizer NamespaceFinalizer ns) w1 = (eu, w2)"
      by (cases "client_Update_Namespace name (RemoveFinalizer NamespaceFinalizer ns) w1") simp
    with True assms d have r: "res = Result_empty" "err = eu" "w' = w2"
      by (auto simp: handleNamespaceDeletion_def split: option.splits)
    note us = client_Update_Namespace_spec[OF u]
    have "calls w' = calls w @ tr @ [(NsUpdate name, err)]"
      using us tr r by simp
    moreover have "err = None \<longrightarrow>
        namespaces w' = (namespaces w)(name \<mapsto> RemoveFinalizer NamespaceFinalizer ns)"
      using us tr r by auto
    moreover have "err \<noteq> None \<longrightarrow> namespaces w' = namespaces w"
      using us tr r by auto
    moreover have "\<forall>m \<in> set managed. objects w' (object_key name m) = None"
      using us tr True r by simp
    ultimately show ?thesis
      apply -
      apply (rule exI[of _ tr], rule exI[of _ "[(NsUpdate name, err)]"])
      using tr True r by auto
  qed
qed

section \<open>The deletions of a pass over a bound namespace\<close>

lemma extends_obtain:
  assumes "extends P w w'"
  obtains tr where "calls w' = calls w @ tr" "\<forall>cr \<in> set tr. P (fst cr)"
  using assms unfolding extends_def by blast

lemma reconcile_bound_deletes:
  assumes rb: "reconcile_bound E name cn cur w = ((res, err), w')"
    and cl: "classes w cn = Some nsc" and pr: "parseResources E (Resources nsc) cn = Inr desired"
  shows "\<exists>pre tr post. calls w' = calls w @ pre @ tr @ post
    \<and> filter (\<lambda>cr. is_delete (fst cr)) pre = []
    \<and> filter (\<lambda>cr. is_delete (fst cr)) post = []
    \<and> map fst tr = take (length tr) (map (\<lambda>m. ObjDelete (object_key name m))
         (filter (undesired (set (map resource_key (map (managed_entry E name cn) desired)))) cur))
    \<and> (\<forall>cr \<in> set (butlast tr). \<not> failed (snd cr))
    \<and> (tr \<noteq> [] \<and> failed (snd (last tr)) \<longrightarrow>
          err = snd (last tr) \<and> post = [] \<and> namespaces w' = namespaces w)
    \<and> (err = None \<longrightarrow> length tr = length
         (filter (undesired (set (map resource_key (map (managed_entry E name cn) desired)))) cur)
          \<and> (\<forall>cr \<in> set tr. \<not> failed (snd cr)))"
proof -
  let ?w1 = "after_call (ClassGet cn) None w"
  let ?stale = "filter (undesired (set (map resource_key (map (managed_entry E name cn) desired)))) cur"
  have valid: "\<forall>u \<in> set desired. GetName u \<noteq> []"
    using parseResources_valid[OF pr] by blast
  from rb cl pr show ?thesis
  proof (cases rule: reconcile_bound_cases)
    case (class_fault e)
    then show ?thesis
      apply -
      apply (rule exI[of _ "[(ClassGet cn, Some e)]"], rule exI[of _ "[]"], rule exI[of _ "[]"])
      by simp
  next
    case (apply_failed e)
    note a = apply_desired_spec[OF apply_failed(4) valid]
    from a obtain tra where tra: "calls w' = calls ?w1 @ tra" "\<forall>cr \<in> set tra. is_apply_call (fst cr)"
      by (elim conjE extends_obtain)
    have nd: "filter (\<lambda>cr. is_delete (fst cr)) tra = []"
      using tra(2) by (intro no_deletes[of tra is_apply_call]) (auto elim: is_apply_call.elims)
    show ?thesis
      apply (rule exI[of _ "(ClassGet cn, None) # tra"], rule exI[of _ "[]"], rule exI[of _ "[]"])
      using apply_failed tra nd by simp
  next
    case (cleanup_failed managed w2 e)
    note a = apply_desired_spec[OF cleanup_failed(4) valid]
    from a obtain tra where tra: "calls w2 = calls ?w1 @ tra" "\<forall>cr \<in> set tra. is_apply_call (fst cr)"
      by (elim conjE extends_obtain)
    have nd: "filter (\<lambda>cr. is_delete (fst cr)) tra = []"
      using tra(2) by (intro no_deletes[of tra is_apply_call]) (auto elim: is_apply_call.elims)
    from a have m: "managed = map (managed_entry E name cn) desired" by simp
    from a have ns2: "namespaces w2 = namespaces w" by simp
    from cleanup_undesired_spec[OF cleanup_failed(5)] obtain trc where trc:
      "calls w' = calls w2 @ trc"
      "map fst trc = take (length trc) (map (\<lambda>m. ObjDelete (object_key name m))
         (filter (undesired (set (map resource_key managed))) cur))"
      "\<forall>cr \<in> set (butlast trc). \<not> failed (snd cr)"
      "trc \<noteq> [] \<and> snd (last trc) = Some e \<and> failed (Some e)"
      "namespaces w' = namespaces w2"
      by auto
    show ?thesis
      apply (rule exI[of _ "(ClassGet cn, None) # tra"], rule exI[of _ trc], rule exI[of _ "[]"])
      using trc tra(1) nd cleanup_failed(2) ns2 unfolding m by simp
  next
    case (ledger_failed managed w2 w3 e)
    note a = apply_desired_spec[OF ledger_failed(4) valid]
    from a obtain tra where tra: "calls w2 = calls ?w1 @ tra" "\<forall>cr \<in> set tra. is_apply_call (fst cr)"
      by (elim conjE extends_obtain)
    have nd: "filter (\<lambda>cr. is_delete (fst cr)) tra = []"
      using tra(2) by (intro no_deletes[of tra is_apply_call]) (auto elim: is_apply_call.elims)
    from a have m: "managed = map (managed_entry E name cn) desired" by simp
    from cleanup_undesired_spec[OF ledger_failed(5)] obtain trc where trc:
      "calls w3 = calls w2 @ trc"
      "map fst trc = take (length trc) (map (\<lambda>m. ObjDelete (object_key name m))
         (filter (undesired (set (map resource_key managed))) cur))"
      "\<forall>cr \<in> set (butlast trc). \<not> failed (snd cr)"
      "\<forall>cr \<in> set trc. \<not> failed (snd cr)"
      by auto
    from updateManagedResources_spec[OF ledger_failed(6)] obtain tru where tru:
      "calls w' = calls w3 @ tru" "\<forall>cr \<in> set tru. fst cr = NsGet name \<or> fst cr = NsUpdate name"
      by (elim conjE extends_obtain)
    have ndu: "filter (\<lambda>cr. is_delete (fst cr)) tru = []"
      using tru(2) by (intro no_deletes[of tru "\<lambda>c. c = NsGet name \<or> c = NsUpdate name"]) auto
    have nofail: "\<not> (trc \<noteq> [] \<and> failed (snd (last trc)))"
      using trc(4) last_in_set by blast
    show ?thesis
      apply (rule exI[of _ "(ClassGet cn, None) # tra"], rule exI[of _ trc], rule exI[of _ tru])
      using trc tru(1) tra(1) nd ndu nofail ledger_failed(2) unfolding m by auto
  next
    case (completed managed w2 w3 w4)
    note a = apply_desired_spec[OF completed(3) valid]
    from a obtain tra where tra: "calls w2 = calls ?w1 @ tra" "\<forall>cr \<in> set tra. is_apply_call (fst cr)"
      by (elim conjE extends_obtain)
    have nd: "filter (\<lambda>cr. is_delete (fst cr)) tra = []"
      using tra(2) by (intro no_deletes[of tra is_apply_call]) (auto elim: is_apply_call.elims)
    from a have m: "managed = map (managed_entry E name cn) desired" by simp
    from cleanup_undesired_spec[OF completed(4)] obtain trc where trc:
      "calls w3 = calls w2 @ trc"
      "map fst trc = take (length trc) (map (\<lambda>m. ObjDelete (object_key name m))
         (filter (undesired (set (map resource_key managed))) cur))"
      "\<forall>cr \<in> set (butlast trc). \<not> failed (snd cr)"
      "length trc = length (filter (undesired (set (map resource_key managed))) cur)"
      "\<forall>cr \<in> set trc. \<not> failed (snd cr)"
      by auto
    from updateManagedResources_spec[OF completed(5)] obtain tru where tru:
      "calls w4 = calls w3 @ tru" "\<forall>cr \<in> set tru. fst cr = NsGet name \<or> fst cr = NsUpdate name"
      by (elim conjE extends_obtain)
    from updateNamespaceClassStatus_spec[OF completed(6)] obtain trs where trs:
      "calls w' = calls w4 @ trs"
      "\<forall>cr \<in> set trs. fst cr = ClassGet cn \<or> fst cr = ClassStatusUpdate cn"
      by (elim conjE extends_obtain)
    have ndu: "filter (\<lambda>cr. is_delete (fst cr)) (tru @ trs) = []"
      using tru(2) trs(2)
      by (intro no_deletes[of "tru @ trs" "\<lambda>c. c = NsGet name \<or> c = NsUpdate name
          \<or> c = ClassGet cn \<or> c = ClassStatusUpdate cn"]) auto
    have nofail: "\<not> (trc \<noteq> [] \<and> failed (snd (last trc)))"
      using trc(5) last_in_set by blast
    show ?thesis
      apply (rule exI[of _ "(ClassGet cn, None) # tra"], rule exI[of _ trc], rule exI[of _ "tru @ trs"])
      using trc tru(1) trs(1) tra(1) nd ndu nofail unfolding m by auto
  qed
qed

section \<open>Keys and the ledger write\<close>

text \<open>The key of a ledger entry determines the entry when kind and name have no slash.\<close>

lemma split_at_first:
  "c \<notin> set xs \<Longrightarrow> c \<notin> set xs' \<Longrightarrow> xs @ c # ys = xs' @ c # ys' \<Longrightarrow> xs = xs' \<and> ys = ys'"
proof (induction xs arbitrary: xs')
  case Nil
  then show ?case by (cases xs') auto
next
  case (Cons x xs)
  then show ?case by (cases xs') auto
qed

lemma resource_key_inj:
  assumes "CHR ''/'' \<notin> set (Kind m)" "CHR ''/'' \<notin> set (Name m)"
    and "CHR ''/'' \<notin> set (Kind m')" "CHR ''/'' \<notin> set (Name m')"
    and "resource_key m = resource_key m'"
  shows "APIVersion m = APIVersion m' \<and> Kind m = Kind m' \<and> Name m = Name m'"
proof -
  from assms(5) have "rev (resource_key m) = rev (resource_key m')" by simp
  then have e: "rev (Name m) @ CHR ''/'' # (rev (Kind m) @ CHR ''/'' # rev (APIVersion m))
      = rev (Name m') @ CHR ''/'' # (rev (Kind m') @ CHR ''/'' # rev (APIVersion m'))"
    by (simp add: resource_key_def)
  from assms(2,4) have sn: "CHR ''/'' \<notin> set (rev (Name m))" "CHR ''/'' \<notin> set (rev (Name m'))"
    by simp_all
  note n = split_at_first[OF sn e]
  from assms(1,3) have sk: "CHR ''/'' \<notin> set (rev (Kind m))" "CHR ''/'' \<notin> set (rev (Kind m'))"
    by simp_all
  note k = split_at_first[OF sk n[THEN conjunct2]]
  from n[THEN conjunct1] k[THEN conjunct1] k[THEN conjunct2] show ?thesis
    by simp
qed

lemma ledger_keys_entries:
  "ledger_keys (map (managed_entry E name cn) desired) = template_keys desired"
  by (simp add: ledger_keys_def template_keys_def image_image)

text \<open>A ledger write that succeeds has issued an update of the namespace that succeeded.\<close>

lemma updateManagedResources_attempt_marshal:
  assumes "updateManagedResources_attempt E name managed w = (None, w')" "managed \<noteq> []"
  shows "json_Marshal_managed E managed \<noteq> None"
  using assms
  by (auto simp: updateManagedResources_attempt_def split: sum.splits prod.splits option.splits)

lemma updateManagedResources_attempt_issued:
  assumes "updateManagedResources_attempt E name managed w = (err, w')"
  shows "\<exists>tr. calls w' = calls w @ tr \<and> (err = None \<longrightarrow> (NsUpdate name, None) \<in> set tr)"
proof -
  obtain r w1 where g: "client_Get_Namespace name w = (r, w1)"
    by (cases "client_Get_Namespace name w") simp
  note gs = client_Get_Namespace_spec[OF g]
  show ?thesis
  proof (cases "w' = w1")
    case True
    with assms g have "err \<noteq> None"
      by (auto simp: updateManagedResources_attempt_def
          dest: client_Update_Namespace_spec split: sum.splits if_splits option.splits)
    with True gs show ?thesis by simp
  next
    case False
    with assms g obtain ns' where u: "client_Update_Namespace name ns' w1 = (err, w')"
      by (auto simp: updateManagedResources_attempt_def split: sum.splits if_splits option.splits)
    from client_Update_Namespace_spec[OF u] gs show ?thesis
      by simp
  qed
qed

lemma updateManagedResources_issued:
  assumes "updateManagedResources E name managed w = (err, w')"
  shows "err = None \<longrightarrow> (NsUpdate name, None) \<in> set (issued w w')"
proof -
  define A where "A = (\<lambda>(w::world) (w'::world). \<exists>tr. calls w' = calls w @ tr)"
  define S where "S = (\<lambda>(w::world) (w'::world).
    \<exists>tr. calls w' = calls w @ tr \<and> (NsUpdate name, None) \<in> set tr)"
  have "(err \<noteq> None \<longrightarrow> A w w') \<and> (err = None \<longrightarrow> S w w')"
  proof (rule retry_loop_rule[where fn = "updateManagedResources_attempt E name managed"
        and n = DefaultRetry_Steps and lastErr = None])
    show "retry_loop DefaultRetry_Steps (updateManagedResources_attempt E name managed) None w
      = (err, w')"
      using assms by (simp add: updateManagedResources_def RetryOnConflict_def)
    show "None \<noteq> None \<or> 0 < DefaultRetry_Steps"
      by (simp add: DefaultRetry_Steps_def)
    show "\<And>w err w'. updateManagedResources_attempt E name managed w = (err, w') \<Longrightarrow>
        (err \<noteq> None \<longrightarrow> A w w') \<and> (err = None \<longrightarrow> S w w')"
      using updateManagedResources_attempt_issued unfolding A_def S_def by blast
    show "\<And>w. A w w" by (simp add: A_def)
    show "\<And>w w1 w2. A w w1 \<Longrightarrow> A w1 w2 \<Longrightarrow> A w w2"
      unfolding A_def by auto
    show "\<And>w w1 w2. A w w1 \<Longrightarrow> S w1 w2 \<Longrightarrow> S w w2"
      unfolding A_def S_def by auto
  qed
  then show ?thesis
    unfolding S_def by (auto simp: issued_def)
qed

lemma updateManagedResources_marshal:
  assumes "updateManagedResources E name managed w = (err, w')"
  shows "err = None \<longrightarrow> managed \<noteq> [] \<longrightarrow> json_Marshal_managed E managed \<noteq> None"
proof -
  define A where "A = (\<lambda>(w::world) (w'::world). True)"
  define S where "S = (\<lambda>(w::world) (w'::world).
    managed \<noteq> [] \<longrightarrow> json_Marshal_managed E managed \<noteq> None)"
  have "(err \<noteq> None \<longrightarrow> A w w') \<and> (err = None \<longrightarrow> S w w')"
  proof (rule retry_loop_rule[where fn = "updateManagedResources_attempt E name managed"
        and n = DefaultRetry_Steps and lastErr = None])
    show "retry_loop DefaultRetry_Steps (updateManagedResources_attempt E name managed) None w
      = (err, w')"
      using assms by (simp add: updateManagedResources_def RetryOnConflict_def)
    show "None \<noteq> None \<or> 0 < DefaultRetry_Steps"
      by (simp add: DefaultRetry_Steps_def)
    show "\<And>w err w'. updateManagedResources_attempt E name managed w = (err, w') \<Longrightarrow>
        (err \<noteq> None \<longrightarrow> A w w') \<and> (err = None \<longrightarrow> S w w')"
      using updateManagedResources_attempt_marshal unfolding A_def S_def by blast
    show "\<And>w. A w w" by (simp add: A_def)
    show "\<And>w w1 w2. A w w1 \<Longrightarrow> A w1 w2 \<Longrightarrow> A w w2"
      unfolding A_def by simp
    show "\<And>w w1 w2. A w w1 \<Longrightarrow> S w1 w2 \<Longrightarrow> S w w2"
      unfolding A_def S_def by simp
  qed
  then show ?thesis
    unfolding S_def by blast
qed

text \<open>The removal loop, as far as the store goes.\<close>

lemma cleanup_undesired_objects:
  assumes "cleanup_undesired name keys cur w = (err, w')"
  shows "namespaces w' = namespaces w \<and> classes w' = classes w
     \<and> (\<forall>k. k \<notin> object_key name ` {m \<in> set cur. undesired keys m} \<longrightarrow>
            objects w' k = objects w k)
     \<and> (\<forall>k. objects w' k \<noteq> None \<longrightarrow> objects w' k = objects w k)
     \<and> (err = None \<longrightarrow>
           (\<forall>m \<in> set cur. undesired keys m \<longrightarrow> objects w' (object_key name m) = None))"
  using cleanup_undesired_spec[OF assms]
  by (elim exE conjE) (intro conjI; assumption)

text \<open>When the class status lists the namespace already, the status is only read.\<close>

lemma updateNamespaceClassStatus_listed:
  assumes "updateNamespaceClassStatus cn name w = (err, w')"
    and "classes w cn = Some nsc" "name \<in> set (ManagedNamespaces nsc)"
  shows "extends (\<lambda>c. c = ClassGet cn) w w'"
proof -
  define A where "A = (\<lambda>(w::world) (w'::world). classes w cn = Some nsc \<longrightarrow>
    classes w' = classes w \<and> extends (\<lambda>c. c = ClassGet cn) w w')"
  have step: "\<And>w err w'. updateNamespaceClassStatus_attempt cn name w = (err, w') \<Longrightarrow> A w w'"
  proof -
    fix w err w'
    assume a: "updateNamespaceClassStatus_attempt cn name w = (err, w')"
    show "A w w'"
      unfolding A_def
    proof
      assume c: "classes w cn = Some nsc"
      obtain r w1 where g: "client_Get_Class cn w = (r, w1)"
        by (cases "client_Get_Class cn w") simp
      note gs = client_Get_Class_spec[OF g]
      from gs c have "r = Inr nsc \<or> (\<exists>e. r = Inl e)"
        by (cases r) auto
      with a g assms(3) have "w' = w1"
        by (auto simp: updateNamespaceClassStatus_attempt_def)
      with gs show "classes w' = classes w \<and> extends (\<lambda>c. c = ClassGet cn) w w'"
        by (auto intro: extends_single[of w1 w "ClassGet cn"])
    qed
  qed
  have "(err \<noteq> None \<longrightarrow> A w w') \<and> (err = None \<longrightarrow> A w w')"
  proof (rule retry_loop_rule[where fn = "updateNamespaceClassStatus_attempt cn name"
        and n = DefaultRetry_Steps and lastErr = None])
    show "retry_loop DefaultRetry_Steps (updateNamespaceClassStatus_attempt cn name) None w
      = (err, w')"
      using assms(1) by (simp add: updateNamespaceClassStatus_def RetryOnConflict_def)
    show "None \<noteq> None \<or> 0 < DefaultRetry_Steps"
      by (simp add: DefaultRetry_Steps_def)
    show "\<And>w err w'. updateNamespaceClassStatus_attempt cn name w = (err, w') \<Longrightarrow>
        (err \<noteq> None \<longrightarrow> A w w') \<and> (err = None \<longrightarrow> A w w')"
      using step by blast
    show "\<And>w. A w w" by (simp add: A_def)
    show "\<And>w w1 w2. A w w1 \<Longrightarrow> A w1 w2 \<Longrightarrow> A w w2"
      unfolding A_def using extends_trans by auto
    show "\<And>w w1 w2. A w w1 \<Longrightarrow> A w1 w2 \<Longrightarrow> A w w2"
      unfolding A_def using extends_trans by auto
  qed
  with assms(2) show ?thesis
    unfolding A_def by blast
qed

lemma extends_writes:
  assumes "calls w' = calls w @ tr" "\<forall>cr \<in> set tr. P (fst cr)"
  shows "extends P w w'"
  using assms unfolding extends_def by blast

text \<open>Without an undesired entry the removal loop does nothing.\<close>

lemma cleanup_undesired_none:
  "filter (undesired keys) cur = [] \<Longrightarrow> cleanup_undesired name keys cur w = (None, w)"
proof (induction cur)
  case Nil
  show ?case by simp
next
  case (Cons m cur)
  from Cons.prems have m: "\<not> undesired keys m" and c: "filter (undesired keys) cur = []"
    by (simp_all split: if_splits)
  from m have "resource_key m \<in> keys" by (simp add: undesired_def)
  with Cons.IH[OF c] show ?case by simp
qed

text \<open>A pass over a bound namespace whose resources match the class already.\<close>

lemma reconcile_bound_matching:
  assumes rb: "reconcile_bound E name cn cur w = ((res, err), w')"
    and cl: "classes w cn = Some nsc" and pr: "parseResources E (Resources nsc) cn = Inr desired"
    and ex: "\<forall>u \<in> set desired.
      \<exists>existing. objects w (GetAPIVersion u, GetKind u, name, GetName u) = Some existing
         \<and> index_map (GetAnnotations existing) ResourceHashAnnotation
             = calculateResourceHash E u"
    and cur: "cur = map (managed_entry E name cn) desired"
  shows "objects w' = objects w
    \<and> extends (\<lambda>c. is_write c \<longrightarrow> c = NsUpdate name \<or> c = ClassStatusUpdate cn) w w'
    \<and> (name \<in> set (ManagedNamespaces nsc) \<longrightarrow>
          extends (\<lambda>c. is_write c \<longrightarrow> c = NsUpdate name) w w')
    \<and> (err = None \<longrightarrow> (NsUpdate name, None) \<in> set (issued w w'))"
proof -
  let ?w1 = "after_call (ClassGet cn) None w"
  let ?P = "\<lambda>c. is_write c \<longrightarrow> c = NsUpdate name \<or> c = ClassStatusUpdate cn"
  let ?Q = "\<lambda>c. is_write c \<longrightarrow> c = NsUpdate name"
  have QP: "\<And>a b. extends ?Q a b \<Longrightarrow> extends ?P a b"
    by (erule extends_mono) simp
  have valid: "\<forall>u \<in> set desired. GetName u \<noteq> []"
    using parseResources_valid[OF pr] by blast
  with ex have ex1: "\<forall>u \<in> set desired. GetName u \<noteq> [] \<and>
      (\<exists>existing. objects ?w1 (GetAPIVersion u, GetKind u, name, GetName u) = Some existing
         \<and> index_map (GetAnnotations existing) ResourceHashAnnotation
             = calculateResourceHash E u)"
    by simp
  have e0: "extends ?Q w ?w1"
    by (rule extends_single[of _ _ "ClassGet cn" None]) simp_all
  have nostale: "filter (undesired (set (map resource_key cur))) cur = []"
    by (auto simp: filter_empty_conv undesired_def)
  from rb cl pr show ?thesis
  proof (cases rule: reconcile_bound_cases)
    case (class_fault e)
    have "extends ?Q w w'"
      unfolding class_fault(4) by (rule extends_single[of _ _ "ClassGet cn" "Some e"]) simp_all
    with class_fault(2,4) QP show ?thesis by simp
  next
    case (apply_failed e)
    note a = apply_desired_unchanged[OF apply_failed(4) ex1]
    from a have "extends ?Q ?w1 w'"
      by (elim conjE extends_mono) simp
    with e0 have "extends ?Q w w'" by (rule extends_trans)
    with a apply_failed(2) QP show ?thesis by simp
  next
    case (cleanup_failed managed w2 e)
    from apply_desired_spec[OF cleanup_failed(4) valid] cur have m: "managed = cur" by simp
    from cleanup_failed(5) cleanup_undesired_none[OF nostale, of name w2]
    have False unfolding m by simp
    then show ?thesis ..
  next
    case (ledger_failed managed w2 w3 e)
    from apply_desired_spec[OF ledger_failed(4) valid] cur have m: "managed = cur" by simp
    note a = apply_desired_unchanged[OF ledger_failed(4) ex1]
    from a have a2: "extends ?Q ?w1 w2"
      by (elim conjE extends_mono) simp
    from ledger_failed(5) cleanup_undesired_none[OF nostale, of name w2]
    have w3: "w3 = w2" unfolding m by simp
    note us = updateManagedResources_spec[OF ledger_failed(6)]
    from us have u2: "extends ?Q w3 w'"
      by (elim conjE extends_mono) auto
    from e0 a2 u2 have "extends ?Q w w'"
      unfolding w3 using extends_trans by blast
    moreover from a us have "objects w' = objects w" unfolding w3 by simp
    ultimately show ?thesis
      using ledger_failed(2) QP by simp
  next
    case (completed managed w2 w3 w4)
    from apply_desired_spec[OF completed(3) valid] cur have m: "managed = cur" by simp
    note a = apply_desired_unchanged[OF completed(3) ex1]
    from a have a2: "extends ?Q ?w1 w2"
      by (elim conjE extends_mono) simp
    from completed(4) cleanup_undesired_none[OF nostale, of name w2]
    have w3: "w3 = w2" unfolding m by simp
    note us = updateManagedResources_spec[OF completed(5)]
    from us have u2: "extends ?Q w2 w4"
      unfolding w3 by (elim conjE extends_mono) auto
    note ss = updateNamespaceClassStatus_spec[OF completed(6)]
    from ss have s2: "extends ?P w4 w'"
      by (elim conjE extends_mono) auto
    have cls: "classes w4 cn = Some nsc"
      using us a cl unfolding w3 by simp
    from e0 a2 have q2: "extends ?Q w w2" by (rule extends_trans)
    from q2 u2 have q4: "extends ?Q w w4" by (rule extends_trans)
    from QP[OF q4] s2 have p: "extends ?P w w'" by (rule extends_trans)
    have q: "name \<in> set (ManagedNamespaces nsc) \<longrightarrow> extends ?Q w w'"
    proof
      assume "name \<in> set (ManagedNamespaces nsc)"
      from updateNamespaceClassStatus_listed[OF completed(6) cls this]
      have "extends ?Q w4 w'" by (rule extends_mono) simp
      with q4 show "extends ?Q w w'" by (rule extends_trans)
    qed
    have i: "(NsUpdate name, None) \<in> set (issued w w')"
    proof -
      from updateManagedResources_issued[OF completed(5)]
      have u: "(NsUpdate name, None) \<in> set (issued w2 w4)" unfolding w3 by simp
      from q2 obtain t0 where t0: "calls w2 = calls w @ t0" by (rule extends_obtain)
      from u2 obtain t1 where t1: "calls w4 = calls w2 @ t1" by (rule extends_obtain)
      from s2 obtain t2 where t2: "calls w' = calls w4 @ t2" by (rule extends_obtain)
      from u t1 have "(NsUpdate name, None) \<in> set t1" by (simp add: issued_def)
      with t0 t1 t2 show ?thesis by (simp add: issued_def)
    qed
    have "objects w' = objects w"
      using a us ss unfolding w3 by simp
    with p q i show ?thesis by simp
  qed
qed

section \<open>Convergence of a completed pass\<close>

lemma reconcile_bound_converges:
  assumes rb: "reconcile_bound E name cn cur w = ((res, None), w')"
    and cl: "classes w cn = Some nsc" and pr: "parseResources E (Resources nsc) cn = Inr desired"
    and ns: "namespaces w name = Some ns"
    and tracked: "live_managed w name \<subseteq> ledger_keys cur \<union> template_keys desired"
    and tagged: "\<forall>u \<in> set desired. \<forall>obj.
        objects w (GetAPIVersion u, GetKind u, name, GetName u) = Some obj \<longrightarrow>
        managed_by_controller obj"
    and slash1: "\<forall>m \<in> set cur. CHR ''/'' \<notin> set (Kind m) \<and> CHR ''/'' \<notin> set (Name m)"
    and slash2: "\<forall>u \<in> set desired. CHR ''/'' \<notin> set (GetKind u) \<and> CHR ''/'' \<notin> set (GetName u)"
  shows "live_managed w' name = template_keys desired
    \<and> res = Result_empty
    \<and> namespaces w' name = Some (ns\<lparr>Annotations := (Annotations ns)(AnnotationKey :=
          if desired = [] then None
          else json_Marshal_managed E (map (managed_entry E name cn) desired))\<rparr>)
    \<and> (desired \<noteq> [] \<longrightarrow> json_Marshal_managed E (map (managed_entry E name cn) desired) \<noteq> None)"
proof -
  let ?w1 = "after_call (ClassGet cn) None w"
  let ?key = "\<lambda>u. (GetAPIVersion u, GetKind u, name, GetName u)"
  let ?entries = "map (managed_entry E name cn) desired"
  let ?keys = "set (map resource_key ?entries)"
  have valid: "\<forall>u \<in> set desired. GetName u \<noteq> []"
    using parseResources_valid[OF pr] by blast
  from rb cl pr show ?thesis
  proof (cases rule: reconcile_bound_cases)
    case (completed managed w2 w3 w4)
    note a = apply_desired_spec[OF completed(3) valid]
    note a_ns = a[THEN conjunct1]
    note a_frame = a[THEN conjunct2, THEN conjunct2, THEN conjunct2, THEN conjunct1, rule_format]
    note a_old = a[THEN conjunct2, THEN conjunct2, THEN conjunct2, THEN conjunct2,
        THEN conjunct1, rule_format]
    note a_res = a[THEN conjunct2, THEN conjunct2, THEN conjunct2, THEN conjunct2,
        THEN conjunct2, THEN conjunct2, rule_format, OF refl]
    from a_res have m: "managed = ?entries" by simp
    from a_res have a_there: "\<And>u. u \<in> set desired \<Longrightarrow> objects w2 (?key u) \<noteq> None" by simp
    note c = cleanup_undesired_objects[OF completed(4)]
    note c_ns = c[THEN conjunct1]
    note c_frame = c[THEN conjunct2, THEN conjunct2, THEN conjunct1, rule_format]
    note c_keep = c[THEN conjunct2, THEN conjunct2, THEN conjunct2, THEN conjunct1, rule_format]
    note c_gone = c[THEN conjunct2, THEN conjunct2, THEN conjunct2, THEN conjunct2, rule_format,
        OF refl]
    note u = updateManagedResources_spec[OF completed(5)]
    note s = updateNamespaceClassStatus_spec[OF completed(6)]
    have o': "objects w' = objects w3" using u s by simp
    have o1: "objects ?w1 = objects w" by simp
    \<comment> \<open>An entry with the key of a template is not undesired.\<close>
    have desired_kept: "\<And>u x. u \<in> set desired \<Longrightarrow> x \<in> set cur \<Longrightarrow>
        object_key name x = ?key u \<Longrightarrow> \<not> undesired (set (map resource_key managed)) x"
    proof -
      fix u x assume ux: "u \<in> set desired" "x \<in> set cur" "object_key name x = ?key u"
      then have "resource_key x = resource_key (managed_entry E name cn u)"
        by (simp add: object_key_def resource_key_def)
      with ux(1) show "\<not> undesired (set (map resource_key managed)) x"
        unfolding m undesired_def by auto
    qed
    \<comment> \<open>An entry whose key is desired has the key of a template.\<close>
    have undesired_or_template: "\<And>x. x \<in> set cur \<Longrightarrow>
        \<not> undesired (set (map resource_key managed)) x \<Longrightarrow>
        (APIVersion x, Kind x, Name x) \<in> template_keys desired"
    proof -
      fix x assume x: "x \<in> set cur" "\<not> undesired (set (map resource_key managed)) x"
      then obtain u where u: "u \<in> set desired"
        "resource_key x = resource_key (managed_entry E name cn u)"
        unfolding m undesired_def by auto
      from slash1 x(1) slash2 u(1)
      have "CHR ''/'' \<notin> set (Kind x)" "CHR ''/'' \<notin> set (Name x)"
        "CHR ''/'' \<notin> set (Kind (managed_entry E name cn u))"
        "CHR ''/'' \<notin> set (Name (managed_entry E name cn u))"
        by simp_all
      from resource_key_inj[OF this u(2)] u(1)
      show "(APIVersion x, Kind x, Name x) \<in> template_keys desired"
        by (auto simp: template_keys_def)
    qed
    have sub1: "template_keys desired \<subseteq> live_managed w' name"
    proof
      fix t assume "t \<in> template_keys desired"
      then obtain u where u: "u \<in> set desired" "t = (GetAPIVersion u, GetKind u, GetName u)"
        by (auto simp: template_keys_def)
      from a_there[OF u(1)] obtain obj where obj: "objects w2 (?key u) = Some obj" by blast
      from a_old[OF obj] have "objects w (?key u) = Some obj \<or> managed_by_controller obj"
        by simp
      with tagged u(1) have tag: "managed_by_controller obj" by blast
      have "?key u \<notin> object_key name ` {x \<in> set cur. undesired (set (map resource_key managed)) x}"
        using desired_kept[OF u(1)] by (auto simp del: set_map)
      from c_frame[OF this] obj have "objects w' (?key u) = Some obj"
        unfolding o' by simp
      with tag u(2) show "t \<in> live_managed w' name"
        by (auto simp: live_managed_def)
    qed
    have sub2: "live_managed w' name \<subseteq> template_keys desired"
    proof
      fix t assume "t \<in> live_managed w' name"
      then obtain a k n obj where t: "t = (a, k, n)"
        "objects w' (a, k, name, n) = Some obj" "managed_by_controller obj"
        by (auto simp: live_managed_def)
      from t(2) have o3: "objects w3 (a, k, name, n) = Some obj" unfolding o' .
      with c_keep[of "(a, k, name, n)"] have o2: "objects w2 (a, k, name, n) = Some obj"
        by simp
      show "t \<in> template_keys desired"
      proof (rule ccontr)
        assume nt: "t \<notin> template_keys desired"
        then have "(a, k, name, n) \<notin> ?key ` set desired"
          unfolding t(1) template_keys_def by auto
        from a_frame[OF this] o2 have "objects w (a, k, name, n) = Some obj" by simp
        with t(3) have "(a, k, n) \<in> live_managed w name"
          by (auto simp: live_managed_def)
        with tracked nt t(1) have "(a, k, n) \<in> ledger_keys cur" by blast
        then obtain x where x: "x \<in> set cur" "APIVersion x = a" "Kind x = k" "Name x = n"
          by (auto simp: ledger_keys_def)
        from undesired_or_template[OF x(1)] nt x t(1)
        have "undesired (set (map resource_key managed)) x" by blast
        from c_gone[rule_format, OF x(1) this] x(2-4) o3 show False
          by (simp add: object_key_def)
      qed
    qed
    from u ns a_ns c_ns have n4: "namespaces w4 name = Some (ns\<lparr>Annotations := (Annotations ns)
        (AnnotationKey := if managed = [] then None else json_Marshal_managed E managed)\<rparr>)"
      by auto
    from s n4 have n': "namespaces w' name = Some (ns\<lparr>Annotations := (Annotations ns)
        (AnnotationKey := if managed = [] then None else json_Marshal_managed E managed)\<rparr>)"
      by simp
    have e: "(managed = []) = (desired = [])" unfolding m by simp
    from updateManagedResources_marshal[OF completed(5)]
    have mar: "desired \<noteq> [] \<longrightarrow> json_Marshal_managed E managed \<noteq> None"
      unfolding e by simp
    from sub1 sub2 n' mar completed(2) show ?thesis
      unfolding e unfolding m by auto
  qed simp_all
qed

section \<open>The claims\<close>

text \<open>
  C6. The content hash of a template is a function of its spec sub-document only: two
  templates with equal spec hash to the same digest, whatever their kind, name,
  apiVersion and metadata.
\<close>

theorem calculateResourceHash_spec_only:
  assumes "map_of obj1 ''spec'' = map_of obj2 ''spec''"
  shows "calculateResourceHash E obj1 = calculateResourceHash E obj2"
  using assms by (rule calculateResourceHash_cong)

theorem calculateResourceHash_spec_only_witness:
  "map_of demo_policy ''spec'' = map_of demo_quota ''spec''
   \<and> GetKind demo_policy \<noteq> GetKind demo_quota
   \<and> GetName demo_policy \<noteq> GetName demo_quota
   \<and> calculateResourceHash demo_lib demo_policy = calculateResourceHash demo_lib demo_quota"
proof -
  have h: "map_of demo_policy ''spec'' = map_of demo_quota ''spec''"
    by (simp add: demo_policy_def demo_quota_def)
  have "GetKind demo_policy \<noteq> GetKind demo_quota" "GetName demo_policy \<noteq> GetName demo_quota"
    by (simp_all add: demo_policy_def demo_quota_def GetKind_def GetName_def metadata_field_def)
  with h calculateResourceHash_spec_only[OF h, of demo_lib] show ?thesis
    by simp
qed

text \<open>
  C10. A ledger annotation that is present with the empty string as value reads as the
  empty ledger, without error, exactly as an absent annotation does.
\<close>

theorem getManagedResources_empty_value:
  assumes "Annotations ns AnnotationKey = Some []"
  shows "getManagedResources E ns = Inr []
    \<and> getManagedResources E ns =
        getManagedResources E (ns\<lparr>Annotations := (Annotations ns)(AnnotationKey := None)\<rparr>)"
  using assms by (simp add: getManagedResources_def annotation_value_def)

theorem getManagedResources_empty_value_witness:
  "Annotations ns_empty_ledger AnnotationKey = Some []
   \<and> getManagedResources demo_lib ns_empty_ledger = Inr []"
proof -
  have h: "Annotations ns_empty_ledger AnnotationKey = Some []"
    by (simp add: ns_empty_ledger_def)
  from getManagedResources_empty_value[OF h, of demo_lib] h show ?thesis
    by simp
qed

text \<open>
  C8, as amended. An absent ledger annotation reads as the empty ledger without error. An
  annotation with a non-empty value that does not parse makes \<^verbatim>\<open>getManagedResources\<close>
  return the error, and a pass that reads the ledger (the namespace is not being deleted,
  or carries the finalizer) returns that error right after fetching the namespace: no
  write is issued and nothing is deleted. The empty string does not parse either, yet it
  is read as the empty ledger.
\<close>

theorem ledger_corruption_is_an_error:
  "(Annotations ns AnnotationKey = None \<longrightarrow> getManagedResources E ns = Inr [])
   \<and> (\<forall>v. Annotations ns AnnotationKey = Some v \<and> v \<noteq> [] \<and> json_Unmarshal_managed E v = None
        \<longrightarrow> getManagedResources E ns = Inl JSONError
          \<and> (\<forall>name w. namespaces w name = Some ns \<and> next_fault w = None
                \<and> (IsZero (DeletionTimestamp ns) \<or> NamespaceFinalizer \<in> set (Finalizers ns))
              \<longrightarrow> Reconcile E name w =
                    ((Result_empty, Some JSONError), after_call (NsGet name) None w)))"
proof (intro conjI allI impI)
  assume "Annotations ns AnnotationKey = None"
  then show "getManagedResources E ns = Inr []"
    by (simp add: getManagedResources_def annotation_value_def)
next
  fix v
  assume "Annotations ns AnnotationKey = Some v \<and> v \<noteq> [] \<and> json_Unmarshal_managed E v = None"
  then show c: "getManagedResources E ns = Inl JSONError"
    by (simp add: getManagedResources_corrupt)
  fix name w
  assume "namespaces w name = Some ns \<and> next_fault w = None
    \<and> (IsZero (DeletionTimestamp ns) \<or> NamespaceFinalizer \<in> set (Finalizers ns))"
  with c show "Reconcile E name w =
      ((Result_empty, Some JSONError), after_call (NsGet name) None w)"
    by (intro Reconcile_corrupt) auto
qed

theorem ledger_corruption_is_an_error_witness:
  "Annotations ns_corrupt AnnotationKey = Some ''not json''
   \<and> json_Unmarshal_managed demo_lib ''not json'' = None
   \<and> IsZero (DeletionTimestamp ns_corrupt)
   \<and> getManagedResources demo_lib ns_corrupt = Inl JSONError
   \<and> Reconcile demo_lib ''n'' (world_of ns_corrupt (class_of []) Map.empty []) =
       ((Result_empty, Some JSONError),
        after_call (NsGet ''n'') None (world_of ns_corrupt (class_of []) Map.empty []))"
proof -
  have h: "Annotations ns_corrupt AnnotationKey = Some ''not json''"
    "json_Unmarshal_managed demo_lib ''not json'' = None"
    "IsZero (DeletionTimestamp ns_corrupt)"
    "namespaces (world_of ns_corrupt (class_of []) Map.empty []) ''n'' = Some ns_corrupt"
    "next_fault (world_of ns_corrupt (class_of []) Map.empty []) = None"
    by (simp_all add: ns_corrupt_def demo_facts IsZero_def world_of_def next_fault_def)
  from ledger_corruption_is_an_error[of ns_corrupt demo_lib] h show ?thesis
    by simp
qed

theorem empty_ledger_value_counterexample:
  "Annotations ns_empty_ledger AnnotationKey = Some []
   \<and> json_Unmarshal_managed demo_lib [] = None
   \<and> getManagedResources demo_lib ns_empty_ledger = Inr []"
  by (simp add: ns_empty_ledger_def demo_facts getManagedResources_def annotation_value_def)

text \<open>
  C7. When the namespace is bound to a class one of whose templates lacks apiVersion,
  kind or name, and the finalizer is present, the pass ends in an error whatever the
  store answers; it issues no write at all, so no template is applied, no resource is
  deleted, and the ledger annotation stays as it was.
\<close>

theorem invalid_template_aborts:
  assumes "namespaces w name = Some ns" "IsZero (DeletionTimestamp ns)"
    and "Labels ns LabelKey = Some className" "NamespaceFinalizer \<in> set (Finalizers ns)"
    and "classes w className = Some nsc" "r \<in> set (Resources nsc)"
    and "json_Unmarshal_object E r = Some u"
    and "GetAPIVersion u = [] \<or> GetKind u = [] \<or> GetName u = []"
  shows "snd (fst (Reconcile E name w)) \<noteq> None
    \<and> filter (\<lambda>cr. is_write (fst cr)) (issued w (snd (Reconcile E name w))) = []
    \<and> namespaces (snd (Reconcile E name w)) = namespaces w
    \<and> objects (snd (Reconcile E name w)) = objects w
    \<and> classes (snd (Reconcile E name w)) = classes w"
proof (cases "next_fault w")
  case (Some e)
  then show ?thesis by (simp add: Reconcile_fetch_fault)
next
  case None
  from assms(7,8) have "validateResource u \<noteq> None"
    by (auto simp: validateResource_def)
  from parseResources_invalid[OF assms(6,7) this] obtain e0
    where p: "parseResources E (Resources nsc) className = Inl e0" by blast
  show ?thesis
  proof (cases "getManagedResources E ns")
    case (Inl e)
    with None assms(1,2) show ?thesis by (simp add: Reconcile_corrupt)
  next
    case (Inr cur)
    from reconcile_bound_invalid[OF _ p, of "after_call (NsGet name) None w" name cur] assms(5)
    obtain e r' where "reconcile_bound E name className cur (after_call (NsGet name) None w) =
       ((Result_empty, Some e),
        after_call (ClassGet className) r' (after_call (NsGet name) None w))"
      by auto
    with None Inr assms(1-4) show ?thesis
      by (simp add: Reconcile_fetched issued_def)
  qed
qed

theorem invalid_template_aborts_witness:
  "''nameless'' \<in> set (Resources (class_of [''policy'', ''nameless'']))
   \<and> json_Unmarshal_object demo_lib ''nameless'' = Some demo_nameless
   \<and> GetName demo_nameless = []
   \<and> snd (fst (Reconcile demo_lib ''n''
        (world_of (ns_bound None) (class_of [''policy'', ''nameless'']) Map.empty []))) \<noteq> None
   \<and> objects (snd (Reconcile demo_lib ''n''
        (world_of (ns_bound None) (class_of [''policy'', ''nameless'']) Map.empty []))) = Map.empty"
proof -
  let ?w = "world_of (ns_bound None) (class_of [''policy'', ''nameless'']) Map.empty []"
  have h: "namespaces ?w ''n'' = Some (ns_bound None)"
    "IsZero (DeletionTimestamp (ns_bound None))"
    "Labels (ns_bound None) LabelKey = Some ''c''"
    "NamespaceFinalizer \<in> set (Finalizers (ns_bound None))"
    "classes ?w ''c'' = Some (class_of [''policy'', ''nameless''])"
    "''nameless'' \<in> set (Resources (class_of [''policy'', ''nameless'']))"
    "json_Unmarshal_object demo_lib ''nameless'' = Some demo_nameless"
    "GetAPIVersion demo_nameless = [] \<or> GetKind demo_nameless = [] \<or> GetName demo_nameless = []"
    by (simp_all add: world_of_def ns_bound_def class_of_def IsZero_def demo_facts)
  have n: "GetName demo_nameless = []"
    by (simp add: demo_facts)
  have o: "objects ?w = Map.empty" by (simp add: world_of_def)
  from invalid_template_aborts[OF h] h(6,7) n o show ?thesis
    by simp
qed

text \<open>
  C5, as amended. When the class label is present, the finalizer absent and the namespace
  not being deleted, a pass never writes a resource, whatever the store answers. When
  moreover the ledger annotation is readable and the store lets the two calls of the pass
  through, the pass stores the namespace with the finalizer appended and returns Requeue.
  (With an unreadable ledger annotation the pass returns the error and adds no finalizer.)
\<close>

theorem finalizer_before_resources:
  assumes "namespaces w name = Some ns" "IsZero (DeletionTimestamp ns)"
    and "Labels ns LabelKey = Some className" "NamespaceFinalizer \<notin> set (Finalizers ns)"
  shows "filter (\<lambda>cr. is_object_write (fst cr)) (issued w (snd (Reconcile E name w))) = []
    \<and> objects (snd (Reconcile E name w)) = objects w
    \<and> (\<forall>cur. getManagedResources E ns = Inr cur \<and> passes 2 w \<longrightarrow>
          Reconcile E name w =
            ((Result_empty\<lparr>Requeue := True\<rparr>, None),
             (after_call (NsUpdate name) None (after_call (NsGet name) None w))
               \<lparr>namespaces := (namespaces w)
                  (name \<mapsto> ns\<lparr>Finalizers := Finalizers ns @ [NamespaceFinalizer]\<rparr>)\<rparr>))"
proof (cases "next_fault w")
  case (Some e)
  then have "\<not> passes 2 w"
    using passes_Suc[of 1 w] by (simp add: numeral_2_eq_2)
  with Some show ?thesis by (simp add: Reconcile_fetch_fault)
next
  case None
  let ?w1 = "after_call (NsGet name) None w"
  show ?thesis
  proof (cases "getManagedResources E ns")
    case (Inl e)
    with None assms show ?thesis by (simp add: Reconcile_corrupt)
  next
    case (Inr cur)
    show ?thesis
    proof (cases "next_fault ?w1")
      case (Some e)
      then have "\<not> passes 2 w"
        using passes_Suc[of 1 w "NsGet name" None] passes_Suc[of 0 ?w1]
        by (simp add: numeral_2_eq_2)
      with None Inr Some assms show ?thesis
        by (simp add: Reconcile_fetched client_Update_Namespace_fault issued_def)
    next
      case n1: None
      have "namespaces ?w1 name = Some ns" using assms(1) by simp
      from client_Update_Namespace_done[OF n1 this] None Inr assms show ?thesis
        by (simp add: Reconcile_fetched AddFinalizer_def issued_def)
    qed
  qed
qed

theorem finalizer_before_resources_witness:
  "namespaces (world_of (ns_corrupt\<lparr>Annotations := Map.empty\<rparr>) (class_of []) Map.empty []) ''n''
     = Some (ns_corrupt\<lparr>Annotations := Map.empty\<rparr>)
   \<and> NamespaceFinalizer \<notin> set (Finalizers (ns_corrupt\<lparr>Annotations := Map.empty\<rparr>))
   \<and> getManagedResources demo_lib (ns_corrupt\<lparr>Annotations := Map.empty\<rparr>) = Inr []
   \<and> fst (Reconcile demo_lib ''n''
        (world_of (ns_corrupt\<lparr>Annotations := Map.empty\<rparr>) (class_of []) Map.empty []))
      = (Result_empty\<lparr>Requeue := True\<rparr>, None)
   \<and> objects (snd (Reconcile demo_lib ''n''
        (world_of (ns_corrupt\<lparr>Annotations := Map.empty\<rparr>) (class_of []) Map.empty [])))
      = Map.empty"
proof -
  let ?ns = "ns_corrupt\<lparr>Annotations := Map.empty\<rparr>"
  let ?w = "world_of ?ns (class_of []) Map.empty []"
  have h: "namespaces ?w ''n'' = Some ?ns" "IsZero (DeletionTimestamp ?ns)"
    "Labels ?ns LabelKey = Some ''c''" "NamespaceFinalizer \<notin> set (Finalizers ?ns)"
    by (simp_all add: world_of_def ns_corrupt_def IsZero_def)
  have g: "getManagedResources demo_lib ?ns = Inr []" "passes 2 ?w" "objects ?w = Map.empty"
    by (simp_all add: getManagedResources_def annotation_value_def ns_corrupt_def passes_def
        world_of_def)
  from finalizer_before_resources[OF h, of demo_lib] h g show ?thesis
    by simp
qed

theorem finalizer_not_added_counterexample:
  "Labels ns_corrupt LabelKey = Some ''c''
   \<and> NamespaceFinalizer \<notin> set (Finalizers ns_corrupt)
   \<and> IsZero (DeletionTimestamp ns_corrupt)
   \<and> fst (Reconcile demo_lib ''n'' (world_of ns_corrupt (class_of []) Map.empty []))
       = (Result_empty, Some JSONError)
   \<and> namespaces (snd (Reconcile demo_lib ''n'' (world_of ns_corrupt (class_of []) Map.empty [])))
       ''n'' = Some ns_corrupt"
  by (simp add: run_defs demo_defs demo_facts)

text \<open>
  C4. When the namespace carries a deletion timestamp and the finalizer, and the pass has
  fetched it, one deletion is attempted for every entry of the ledger, in ledger order.
  If one of them fails with an error other than not-found, the pass returns
  RequeueAfter(10 s) without error and leaves the stored namespace, finalizer included,
  as it was. Otherwise the pass issues the update that removes the finalizer and returns
  the empty result with the error of that update: when the store accepts it the finalizer
  is gone, when it does not the namespace is as it was.
\<close>

theorem teardown_gated_by_deletions:
  assumes "namespaces w name = Some ns" "\<not> IsZero (DeletionTimestamp ns)"
    and "NamespaceFinalizer \<in> set (Finalizers ns)" "getManagedResources E ns = Inr managed"
    and "next_fault w = None" "Reconcile E name w = ((res, err), w')"
  shows "map fst (filter (\<lambda>cr. is_delete (fst cr)) (issued w w'))
      = map (\<lambda>m. ObjDelete (object_key name m)) managed
    \<and> ((\<exists>cr \<in> set (issued w w'). is_delete (fst cr) \<and> failed (snd cr)) \<longrightarrow>
          res = Result_empty\<lparr>RequeueAfter := Second * 10\<rparr> \<and> err = None
          \<and> namespaces w' = namespaces w)
    \<and> (\<not> (\<exists>cr \<in> set (issued w w'). is_delete (fst cr) \<and> failed (snd cr)) \<longrightarrow>
          res = Result_empty \<and> (NsUpdate name, err) \<in> set (issued w w')
          \<and> (err = None \<longrightarrow>
                namespaces w' = (namespaces w)(name \<mapsto> RemoveFinalizer NamespaceFinalizer ns))
          \<and> (err \<noteq> None \<longrightarrow> namespaces w' = namespaces w))
    \<and> NamespaceFinalizer \<notin> set (Finalizers (RemoveFinalizer NamespaceFinalizer ns))"
proof -
  let ?w1 = "after_call (NsGet name) None w"
  from assms have h: "handleNamespaceDeletion E name ns ?w1 = ((res, err), w')"
    by (simp add: Reconcile_fetched)
  from handleNamespaceDeletion_spec[OF h assms(3,4)] obtain tr rest where tr:
    "calls w' = calls ?w1 @ tr @ rest"
    "map fst tr = map (\<lambda>m. ObjDelete (object_key name m)) managed"
    "if \<exists>cr \<in> set tr. failed (snd cr)
        then rest = [] \<and> res = Result_empty\<lparr>RequeueAfter := Second * 10\<rparr> \<and> err = None
          \<and> namespaces w' = namespaces ?w1
        else rest = [(NsUpdate name, err)] \<and> res = Result_empty
          \<and> (err = None \<longrightarrow>
                namespaces w' = (namespaces ?w1)(name \<mapsto> RemoveFinalizer NamespaceFinalizer ns))
          \<and> (err \<noteq> None \<longrightarrow> namespaces w' = namespaces ?w1)
          \<and> (\<forall>m \<in> set managed. objects w' (object_key name m) = None)"
    by blast
  have rest: "rest = [] \<or> rest = [(NsUpdate name, err)]"
    using tr(3) by (auto split: if_splits)
  have iss: "issued w w' = (NsGet name, None) # tr @ rest"
    using tr(1) by (simp add: issued_def)
  have d: "filter (\<lambda>cr. is_delete (fst cr)) (issued w w') = tr"
    using iss rest deletes_only[OF tr(2)] by auto
  have f: "(\<exists>cr \<in> set (issued w w'). is_delete (fst cr) \<and> failed (snd cr))
      \<longleftrightarrow> (\<exists>cr \<in> set tr. failed (snd cr))"
    using bex_filter[of "\<lambda>cr. is_delete (fst cr)" "issued w w'" "\<lambda>cr. failed (snd cr)"]
    unfolding d by simp
  show ?thesis
  proof (cases "\<exists>cr \<in> set tr. failed (snd cr)")
    case True
    with tr(3) have "rest = [] \<and> res = Result_empty\<lparr>RequeueAfter := Second * 10\<rparr> \<and> err = None
          \<and> namespaces w' = namespaces ?w1" by simp
    with True show ?thesis
      unfolding f d using tr(2) by simp
  next
    case False
    with tr(3) have "rest = [(NsUpdate name, err)] \<and> res = Result_empty
          \<and> (err = None \<longrightarrow>
                namespaces w' = (namespaces ?w1)(name \<mapsto> RemoveFinalizer NamespaceFinalizer ns))
          \<and> (err \<noteq> None \<longrightarrow> namespaces w' = namespaces ?w1)" by simp
    with False show ?thesis
      unfolding f d using tr(2) iss by simp
  qed
qed

theorem teardown_gated_by_deletions_witness:
  "namespaces world_deleting ''n'' = Some ns_deleting
   \<and> \<not> IsZero (DeletionTimestamp ns_deleting)
   \<and> NamespaceFinalizer \<in> set (Finalizers ns_deleting)
   \<and> getManagedResources demo_lib ns_deleting = Inr [entry_p]
   \<and> fst (Reconcile demo_lib ''n'' world_deleting) = (Result_empty, None)
   \<and> map fst (filter (\<lambda>cr. is_delete (fst cr))
        (issued world_deleting (snd (Reconcile demo_lib ''n'' world_deleting))))
      = [ObjDelete (object_key ''n'' entry_p)]
   \<and> namespaces (snd (Reconcile demo_lib ''n'' world_deleting))
      = (namespaces world_deleting)(''n'' \<mapsto> RemoveFinalizer NamespaceFinalizer ns_deleting)"
proof -
  let ?R = "Reconcile demo_lib ''n'' world_deleting"
  have h: "namespaces world_deleting ''n'' = Some ns_deleting"
    "\<not> IsZero (DeletionTimestamp ns_deleting)"
    "NamespaceFinalizer \<in> set (Finalizers ns_deleting)"
    "getManagedResources demo_lib ns_deleting = Inr [entry_p]"
    "next_fault world_deleting = None"
    by (simp_all add: run_defs demo_defs demo_facts)
  have r: "?R = ((fst (fst ?R), snd (fst ?R)), snd ?R)" by simp
  have e: "fst ?R = (Result_empty, None)"
    by (simp add: run_defs demo_defs demo_facts)
  have c: "calls (snd ?R) = [(NsGet ''n'', None), (ObjDelete key_p, None), (NsUpdate ''n'', None)]"
    by (simp add: run_defs demo_defs demo_facts)
  have "\<not> (\<exists>cr \<in> set (issued world_deleting (snd ?R)). is_delete (fst cr) \<and> failed (snd cr))"
    unfolding issued_def c by (simp add: world_deleting_def world_of_def)
  with teardown_gated_by_deletions[OF h r] e h show ?thesis
    by simp
qed

text \<open>
  C2. The run of the pass on an unbound namespace whose only ledgered resource cannot be
  deleted (the store answers service-unavailable): the pass returns the empty result
  without error, the finalizer is removed and the ledger annotation cleared, and the
  resource is still live.
\<close>

theorem unbound_cleanup_drops_failure:
  "Labels ns_unbound LabelKey = None
   \<and> getManagedResources demo_lib ns_unbound = Inr [entry_p]
   \<and> fst (Reconcile demo_lib ''n'' world_unbound_failing) = (Result_empty, None)
   \<and> calls (snd (Reconcile demo_lib ''n'' world_unbound_failing)) =
       [(NsGet ''n'', None), (ObjDelete key_p, Some Unavailable), (NsUpdate ''n'', None),
        (NsGet ''n'', None), (NsUpdate ''n'', None)]
   \<and> objects (snd (Reconcile demo_lib ''n'' world_unbound_failing)) key_p = Some live_p
   \<and> map_option Finalizers (namespaces (snd (Reconcile demo_lib ''n'' world_unbound_failing)) ''n'')
       = Some []
   \<and> map_option (\<lambda>ns. Annotations ns AnnotationKey)
       (namespaces (snd (Reconcile demo_lib ''n'' world_unbound_failing)) ''n'') = Some None"
  by (simp add: run_defs demo_defs demo_facts)

text \<open>
  C9, as amended. In the removal step of a pass over a bound namespace, deletions are
  attempted in the order of the ledger, for the entries whose key is not desired, and
  only as long as none has failed: a deletion that fails with an error other than
  not-found is the last call of the pass, which returns that error with the stored
  namespace, ledger annotation included, as it was. A pass that ends without error has
  attempted the deletion of every such entry.
\<close>

theorem stale_removal_stops_at_failure:
  assumes "namespaces w name = Some ns" "IsZero (DeletionTimestamp ns)"
    and "Labels ns LabelKey = Some className" "NamespaceFinalizer \<in> set (Finalizers ns)"
    and "getManagedResources E ns = Inr currentManaged"
    and "classes w className = Some nsc"
    and "parseResources E (Resources nsc) className = Inr desired"
    and "Reconcile E name w = ((res, err), w')"
    and "deletes = filter (\<lambda>cr. is_delete (fst cr)) (issued w w')"
    and "stale = filter (undesired (set (map resource_key
           (map (managed_entry E name className) desired)))) currentManaged"
  shows "map fst deletes = take (length deletes) (map (\<lambda>m. ObjDelete (object_key name m)) stale)
    \<and> (\<forall>cr \<in> set (butlast deletes). \<not> failed (snd cr))
    \<and> (deletes \<noteq> [] \<and> failed (snd (last deletes)) \<longrightarrow>
          err = snd (last deletes) \<and> last (issued w w') = last deletes
          \<and> namespaces w' = namespaces w)
    \<and> (err = None \<longrightarrow> length deletes = length stale)"
proof (cases "next_fault w")
  case (Some e)
  from Reconcile_fetch_fault[OF Some, of E name] assms(8)
  have "err = Some e" "w' = after_call (NsGet name) (Some e) w"
    by auto
  with assms(9) have "deletes = []" "err = Some e"
    by simp_all
  then show ?thesis by simp
next
  case None
  let ?w1 = "after_call (NsGet name) None w"
  from None assms have rb: "reconcile_bound E name className currentManaged ?w1 = ((res, err), w')"
    by (simp add: Reconcile_fetched)
  have cl: "classes ?w1 className = Some nsc" using assms(6) by simp
  from reconcile_bound_deletes[OF rb cl assms(7), folded assms(10)]
  obtain pre tr post where r:
    "calls w' = calls ?w1 @ pre @ tr @ post"
    "filter (\<lambda>cr. is_delete (fst cr)) pre = []"
    "filter (\<lambda>cr. is_delete (fst cr)) post = []"
    "map fst tr = take (length tr) (map (\<lambda>m. ObjDelete (object_key name m)) stale)"
    "\<forall>cr \<in> set (butlast tr). \<not> failed (snd cr)"
    "tr \<noteq> [] \<and> failed (snd (last tr)) \<longrightarrow>
          err = snd (last tr) \<and> post = [] \<and> namespaces w' = namespaces ?w1"
    "err = None \<longrightarrow> length tr = length stale \<and> (\<forall>cr \<in> set tr. \<not> failed (snd cr))"
    by (elim exE conjE) (rule that; assumption)
  have iss: "issued w w' = (NsGet name, None) # pre @ tr @ post"
    using r(1) by (simp add: issued_def)
  have d: "deletes = tr"
    unfolding assms(9) iss using r(2,3) deletes_only_take[OF r(4)] by simp
  have "tr \<noteq> [] \<and> post = [] \<longrightarrow> last (issued w w') = last tr"
    unfolding iss by simp
  with r show ?thesis unfolding d by simp
qed

theorem stale_removal_stops_at_failure_witness:
  "getManagedResources demo_lib (ns_bound (Some (marshal_ledger [entry_p, entry_q])))
     = Inr [entry_p, entry_q]
   \<and> parseResources demo_lib (Resources (class_of [])) ''c'' = Inr []
   \<and> filter (undesired (set (map resource_key (map (managed_entry demo_lib ''n'' ''c'') []))))
       [entry_p, entry_q] = [entry_p, entry_q]
   \<and> map fst (filter (\<lambda>cr. is_delete (fst cr))
        (issued world_stale_failing (snd (Reconcile demo_lib ''n'' world_stale_failing))))
       = [ObjDelete key_p]
   \<and> snd (fst (Reconcile demo_lib ''n'' world_stale_failing)) = Some Unavailable
   \<and> namespaces (snd (Reconcile demo_lib ''n'' world_stale_failing))
       = namespaces world_stale_failing"
proof -
  let ?R = "Reconcile demo_lib ''n'' world_stale_failing"
  let ?ns = "ns_bound (Some (marshal_ledger [entry_p, entry_q]))"
  have h: "namespaces world_stale_failing ''n'' = Some ?ns"
    "IsZero (DeletionTimestamp ?ns)" "Labels ?ns LabelKey = Some ''c''"
    "NamespaceFinalizer \<in> set (Finalizers ?ns)"
    "getManagedResources demo_lib ?ns = Inr [entry_p, entry_q]"
    "classes world_stale_failing ''c'' = Some (class_of [])"
    "parseResources demo_lib (Resources (class_of [])) ''c'' = Inr []"
    by (simp_all add: run_defs demo_defs demo_facts)
  have r: "?R = ((fst (fst ?R), snd (fst ?R)), snd ?R)" by simp
  have c: "calls (snd ?R) =
      [(NsGet ''n'', None), (ClassGet ''c'', None), (ObjDelete key_p, Some Unavailable)]"
    by (simp add: run_defs demo_defs demo_facts)
  have d: "filter (\<lambda>cr. is_delete (fst cr)) (issued world_stale_failing (snd ?R))
      = [(ObjDelete key_p, Some Unavailable)]"
    unfolding issued_def c by (simp add: world_stale_failing_def world_of_def)
  have s: "filter (undesired (set (map resource_key (map (managed_entry demo_lib ''n'' ''c'') []))))
       [entry_p, entry_q] = [entry_p, entry_q]"
    by (simp add: undesired_def)
  from stale_removal_stops_at_failure[OF h r refl refl] h(5,7) s show ?thesis
    unfolding d by simp
qed

theorem stale_removal_counterexample:
  "getManagedResources demo_lib (ns_bound (Some (marshal_ledger [entry_p, entry_q])))
     = Inr [entry_p, entry_q]
   \<and> Resources (class_of []) = []
   \<and> fst (Reconcile demo_lib ''n'' world_stale_failing) = (Result_empty, Some Unavailable)
   \<and> calls (snd (Reconcile demo_lib ''n'' world_stale_failing)) =
       [(NsGet ''n'', None), (ClassGet ''c'', None), (ObjDelete key_p, Some Unavailable)]
   \<and> objects (snd (Reconcile demo_lib ''n'' world_stale_failing)) key_q = Some live_q"
  by (simp add: run_defs demo_defs demo_facts)

text \<open>
  C3, as amended. A pass over a bound namespace whose resources match the class already
  (every template is live with the hash of the template, and the ledger lists the desired
  descriptors) creates, updates and deletes no resource, whatever the store answers, and
  leaves the resources as they are. It does write to the store: a pass that ends without
  error has issued the update of the namespace that rewrites the ledger annotation. The
  only other write it can issue is the status update of the class, and none when the
  status lists the namespace already.
\<close>

theorem matching_pass_writes_no_resource:
  assumes "namespaces w name = Some ns" "IsZero (DeletionTimestamp ns)"
    and "Labels ns LabelKey = Some className" "NamespaceFinalizer \<in> set (Finalizers ns)"
    and "getManagedResources E ns = Inr currentManaged"
    and "classes w className = Some nsc"
    and "parseResources E (Resources nsc) className = Inr desired"
    and "\<forall>u \<in> set desired.
      \<exists>existing. objects w (GetAPIVersion u, GetKind u, name, GetName u) = Some existing
         \<and> index_map (GetAnnotations existing) ResourceHashAnnotation
             = calculateResourceHash E u"
    and "currentManaged = map (managed_entry E name className) desired"
    and "Reconcile E name w = ((res, err), w')"
  shows "filter (\<lambda>cr. is_object_write (fst cr)) (issued w w') = []
    \<and> objects w' = objects w
    \<and> (\<forall>cr \<in> set (issued w w'). is_write (fst cr) \<longrightarrow>
          fst cr = NsUpdate name \<or> fst cr = ClassStatusUpdate className)
    \<and> (name \<in> set (ManagedNamespaces nsc) \<longrightarrow>
          (\<forall>cr \<in> set (issued w w'). is_write (fst cr) \<longrightarrow> fst cr = NsUpdate name))
    \<and> (err = None \<longrightarrow> (NsUpdate name, None) \<in> set (issued w w'))"
proof (cases "next_fault w")
  case (Some e)
  from Reconcile_fetch_fault[OF Some, of E name] assms(10)
  have "err = Some e" "w' = after_call (NsGet name) (Some e) w"
    by auto
  then show ?thesis by simp
next
  case None
  let ?w1 = "after_call (NsGet name) None w"
  let ?P = "\<lambda>c. is_write c \<longrightarrow> c = NsUpdate name \<or> c = ClassStatusUpdate className"
  let ?Q = "\<lambda>c. is_write c \<longrightarrow> c = NsUpdate name"
  from None assms have rb: "reconcile_bound E name className currentManaged ?w1 = ((res, err), w')"
    by (simp add: Reconcile_fetched)
  have cl: "classes ?w1 className = Some nsc" using assms(6) by simp
  have ex: "\<forall>u \<in> set desired.
      \<exists>existing. objects ?w1 (GetAPIVersion u, GetKind u, name, GetName u) = Some existing
         \<and> index_map (GetAnnotations existing) ResourceHashAnnotation
             = calculateResourceHash E u"
    using assms(8) by simp
  note m = reconcile_bound_matching[OF rb cl assms(7) ex assms(9)]
  from m have p: "extends ?P ?w1 w'" by (elim conjE)
  then obtain tr where tr: "calls w' = calls ?w1 @ tr" "\<forall>cr \<in> set tr. ?P (fst cr)"
    by (rule extends_obtain)
  have iss: "issued w w' = (NsGet name, None) # tr" "issued ?w1 w' = tr"
    using tr(1) by (simp_all add: issued_def)
  have 1: "\<forall>cr \<in> set (issued w w'). ?P (fst cr)"
    unfolding iss using tr(2) by simp
  have 2: "filter (\<lambda>cr. is_object_write (fst cr)) (issued w w') = []"
    unfolding filter_empty_conv using 1 is_object_write_not_other by blast
  have 3: "name \<in> set (ManagedNamespaces nsc) \<longrightarrow> (\<forall>cr \<in> set (issued w w'). ?Q (fst cr))"
  proof
    assume "name \<in> set (ManagedNamespaces nsc)"
    with m have "extends ?Q ?w1 w'" by blast
    from extends_issued[OF this] show "\<forall>cr \<in> set (issued w w'). ?Q (fst cr)"
      unfolding iss by simp
  qed
  from m have 4: "err = None \<longrightarrow> (NsUpdate name, None) \<in> set (issued w w')"
    unfolding iss by simp
  from m have 5: "objects w' = objects w" by simp
  from 1 2 3 4 5 show ?thesis by blast
qed

theorem matching_pass_writes_no_resource_witness:
  "getManagedResources demo_lib (ns_bound (Some (marshal_ledger [entry_p]))) = Inr [entry_p]
   \<and> parseResources demo_lib (Resources (class_of [''policy''])) ''c'' = Inr [demo_policy]
   \<and> [entry_p] = map (managed_entry demo_lib ''n'' ''c'') [demo_policy]
   \<and> filter (\<lambda>cr. is_object_write (fst cr))
       (issued world_matching (snd (Reconcile demo_lib ''n'' world_matching))) = []
   \<and> objects (snd (Reconcile demo_lib ''n'' world_matching)) = objects world_matching"
proof -
  let ?R = "Reconcile demo_lib ''n'' world_matching"
  let ?ns = "ns_bound (Some (marshal_ledger [entry_p]))"
  have h: "namespaces world_matching ''n'' = Some ?ns"
    "IsZero (DeletionTimestamp ?ns)" "Labels ?ns LabelKey = Some ''c''"
    "NamespaceFinalizer \<in> set (Finalizers ?ns)"
    "getManagedResources demo_lib ?ns = Inr [entry_p]"
    "classes world_matching ''c'' = Some (class_of [''policy''])"
    "parseResources demo_lib (Resources (class_of [''policy''])) ''c'' = Inr [demo_policy]"
    by (simp_all add: run_defs demo_defs demo_facts)
  have e: "\<forall>u \<in> set [demo_policy].
      \<exists>existing. objects world_matching (GetAPIVersion u, GetKind u, ''n'', GetName u)
          = Some existing
         \<and> index_map (GetAnnotations existing) ResourceHashAnnotation
             = calculateResourceHash demo_lib u"
    by (simp add: demo_defs demo_facts)
  have c: "[entry_p] = map (managed_entry demo_lib ''n'' ''c'') [demo_policy]"
    by (simp add: demo_facts)
  have r: "?R = ((fst (fst ?R), snd (fst ?R)), snd ?R)" by simp
  from matching_pass_writes_no_resource[OF h e c r] h(5,7) c show ?thesis
    by simp
qed

theorem matching_pass_counterexample:
  "getManagedResources demo_lib (ns_bound (Some (marshal_ledger [entry_p]))) = Inr [entry_p]
   \<and> parseResources demo_lib (Resources (class_of [''policy''])) ''c'' = Inr [demo_policy]
   \<and> managed_entry demo_lib ''n'' ''c'' demo_policy = entry_p
   \<and> objects world_matching (GetAPIVersion demo_policy, GetKind demo_policy, ''n'',
        GetName demo_policy) = Some live_p
   \<and> index_map (GetAnnotations live_p) ResourceHashAnnotation
       = calculateResourceHash demo_lib demo_policy
   \<and> fst (Reconcile demo_lib ''n'' world_matching) = (Result_empty, None)
   \<and> calls (snd (Reconcile demo_lib ''n'' world_matching)) =
       [(NsGet ''n'', None), (ClassGet ''c'', None), (ObjGet key_p, None),
        (NsGet ''n'', None), (NsUpdate ''n'', None), (ClassGet ''c'', None)]"
  by (simp add: run_defs demo_defs demo_facts)

text \<open>
  C1, as amended. A pass over a namespace bound to an existing class, with the finalizer
  present, that completes without error: provided that before the pass every live managed
  resource of the namespace is listed in the ledger or declared by the class, every live
  resource at the key of a template carries the managed-by tag, and no kind or name in
  the ledger or the templates contains a slash, the live managed resources of the
  namespace, keyed by (apiVersion, kind, name), are afterwards exactly the templates of
  the class, and the ledger annotation holds the serialisation of exactly one descriptor
  for each template, in template order (the annotation is removed when there is none).
\<close>

theorem reconcile_converges:
  assumes "namespaces w name = Some ns" "IsZero (DeletionTimestamp ns)"
    and "Labels ns LabelKey = Some className" "NamespaceFinalizer \<in> set (Finalizers ns)"
    and "getManagedResources E ns = Inr currentManaged"
    and "classes w className = Some nsc"
    and "parseResources E (Resources nsc) className = Inr desired"
    and "Reconcile E name w = ((res, None), w')"
    and "live_managed w name \<subseteq> ledger_keys currentManaged \<union> template_keys desired"
    and "\<forall>u \<in> set desired. \<forall>obj.
        objects w (GetAPIVersion u, GetKind u, name, GetName u) = Some obj \<longrightarrow>
        managed_by_controller obj"
    and "\<forall>m \<in> set currentManaged. CHR ''/'' \<notin> set (Kind m) \<and> CHR ''/'' \<notin> set (Name m)"
    and "\<forall>u \<in> set desired. CHR ''/'' \<notin> set (GetKind u) \<and> CHR ''/'' \<notin> set (GetName u)"
  shows "live_managed w' name = template_keys desired
    \<and> namespaces w' name = Some (ns\<lparr>Annotations := (Annotations ns)(AnnotationKey :=
          if desired = [] then None
          else json_Marshal_managed E (map (managed_entry E name className) desired))\<rparr>)
    \<and> (desired \<noteq> [] \<longrightarrow>
          json_Marshal_managed E (map (managed_entry E name className) desired) \<noteq> None)
    \<and> ledger_keys (map (managed_entry E name className) desired) = template_keys desired"
proof -
  let ?w1 = "after_call (NsGet name) None w"
  have n: "next_fault w = None"
  proof (cases "next_fault w")
    case (Some e)
    from Reconcile_fetch_fault[OF Some, of E name] assms(8) show ?thesis by simp
  qed simp
  with assms(1-5,8)
  have rb: "reconcile_bound E name className currentManaged ?w1 = ((res, None), w')"
    by (simp add: Reconcile_fetched)
  have cl: "classes ?w1 className = Some nsc" and ns: "namespaces ?w1 name = Some ns"
    using assms(1,6) by simp_all
  have tracked: "live_managed ?w1 name \<subseteq> ledger_keys currentManaged \<union> template_keys desired"
    using assms(9) by (simp add: live_managed_def)
  have tagged: "\<forall>u \<in> set desired. \<forall>obj.
        objects ?w1 (GetAPIVersion u, GetKind u, name, GetName u) = Some obj \<longrightarrow>
        managed_by_controller obj"
    using assms(10) by simp
  from reconcile_bound_converges[OF rb cl assms(7) ns tracked tagged assms(11,12)]
    ledger_keys_entries[of E name className desired]
  show ?thesis by simp
qed

theorem reconcile_converges_witness:
  "getManagedResources demo_lib (ns_bound (Some (marshal_ledger [entry_q]))) = Inr [entry_q]
   \<and> parseResources demo_lib (Resources (class_of [''policy''])) ''c'' = Inr [demo_policy]
   \<and> live_managed world_switch ''n'' \<subseteq> ledger_keys [entry_q] \<union> template_keys [demo_policy]
   \<and> fst (Reconcile demo_lib ''n'' world_switch) = (Result_empty, None)
   \<and> live_managed (snd (Reconcile demo_lib ''n'' world_switch)) ''n''
       = template_keys [demo_policy]
   \<and> objects (snd (Reconcile demo_lib ''n'' world_switch)) key_p = Some live_p
   \<and> objects (snd (Reconcile demo_lib ''n'' world_switch)) key_q = None"
proof -
  let ?R = "Reconcile demo_lib ''n'' world_switch"
  let ?ns = "ns_bound (Some (marshal_ledger [entry_q]))"
  have h: "namespaces world_switch ''n'' = Some ?ns"
    "IsZero (DeletionTimestamp ?ns)" "Labels ?ns LabelKey = Some ''c''"
    "NamespaceFinalizer \<in> set (Finalizers ?ns)"
    "getManagedResources demo_lib ?ns = Inr [entry_q]"
    "classes world_switch ''c'' = Some (class_of [''policy''])"
    "parseResources demo_lib (Resources (class_of [''policy''])) ''c'' = Inr [demo_policy]"
    by (simp_all add: run_defs demo_defs demo_facts)
  have e: "fst ?R = (Result_empty, None)"
    by (simp add: run_defs demo_defs demo_facts undesired_def)
  have o: "objects (snd ?R) key_p = Some live_p" "objects (snd ?R) key_q = None"
    by (simp_all add: run_defs demo_defs demo_facts undesired_def)
  from e have r: "?R = ((fst (fst ?R), None), snd ?R)"
    by (metis prod.collapse snd_conv)
  have t: "live_managed world_switch ''n'' \<subseteq> ledger_keys [entry_q] \<union> template_keys [demo_policy]"
    by (auto simp: live_managed_def ledger_keys_def demo_defs demo_facts split: if_splits)
  have g: "\<forall>u \<in> set [demo_policy]. \<forall>obj.
        objects world_switch (GetAPIVersion u, GetKind u, ''n'', GetName u) = Some obj \<longrightarrow>
        managed_by_controller obj"
    by (simp add: demo_defs demo_facts)
  have s: "\<forall>m \<in> set [entry_q]. CHR ''/'' \<notin> set (Kind m) \<and> CHR ''/'' \<notin> set (Name m)"
    "\<forall>u \<in> set [demo_policy]. CHR ''/'' \<notin> set (GetKind u) \<and> CHR ''/'' \<notin> set (GetName u)"
    by (simp_all add: demo_facts)
  from reconcile_converges[OF h r t g s] h(5,7) t e o show ?thesis
    by simp
qed

theorem orphan_counterexample:
  "fst (Reconcile demo_lib ''n'' world_partial) = (Result_empty, Some Unavailable)
   \<and> namespaces world_orphan ''n'' = Some (ns_bound None)
   \<and> classes world_orphan ''c'' = Some (class_of [])
   \<and> NamespaceFinalizer \<in> set (Finalizers (ns_bound None))
   \<and> parseResources demo_lib (Resources (class_of [])) ''c'' = Inr []
   \<and> fst (Reconcile demo_lib ''n'' world_orphan) = (Result_empty, None)
   \<and> (''networking.k8s.io/v1'', ''NetworkPolicy'', ''p'')
       \<in> live_managed (snd (Reconcile demo_lib ''n'' world_orphan)) ''n''
   \<and> template_keys [] = {}"
proof -
  have p: "fst (Reconcile demo_lib ''n'' world_partial) = (Result_empty, Some Unavailable)"
    "objects (snd (Reconcile demo_lib ''n'' world_partial)) = [key_p \<mapsto> live_p]"
    "namespaces (snd (Reconcile demo_lib ''n'' world_partial)) = [''n'' \<mapsto> ns_bound None]"
    by (simp_all add: run_defs demo_defs demo_facts)
  have w: "world_orphan = world_of (ns_bound None) (class_of []) [key_p \<mapsto> live_p] []"
    unfolding world_orphan_def world_of_def
    by (rule world.equality) (simp_all add: p, simp_all add: run_defs demo_defs demo_facts)
  have r: "fst (Reconcile demo_lib ''n'' world_orphan) = (Result_empty, None)"
    "objects (snd (Reconcile demo_lib ''n'' world_orphan)) key_p = Some live_p"
    unfolding w by (simp_all add: run_defs demo_defs demo_facts)
  have l: "(''networking.k8s.io/v1'', ''NetworkPolicy'', ''p'')
       \<in> live_managed (snd (Reconcile demo_lib ''n'' world_orphan)) ''n''"
    using r(2) demo_live_managed(1) by (simp add: live_managed_def key_p_def)
  have n: "namespaces world_orphan ''n'' = Some (ns_bound None)"
    "classes world_orphan ''c'' = Some (class_of [])"
    unfolding w by (simp_all add: world_of_def)
  from p(1) r(1) l n show ?thesis
    by (simp add: template_keys_def ns_bound_def class_of_def)
qed

end
